theory Spec2Isabelle
  imports Complex_Main "HOL-Library.Log_Nat"
begin

section \<open>Strings of the JavaScript runtime\<close>

text \<open>
  Strings are lists of characters. The decimal rendering of a non-negative integer
  (\<^verbatim>\<open>Number.prototype.toString\<close> on an integral Number below \<open>10^21\<close>) is the list of
  its decimal digits, most significant first, without leading zeros.
\<close>

definition digit_char :: "nat \<Rightarrow> char" where
  "digit_char d = char_of (48 + d)"

fun toString :: "nat \<Rightarrow> string" where
  "toString n = (if n < 10 then [digit_char n] else toString (n div 10) @ [digit_char (n mod 10)])"

declare toString.simps [simp del]

text \<open>
  \<^verbatim>\<open>String.prototype.padStart(targetLength, padString)\<close> with a one-character pad string:
  the pad is repeated in front until the target length is reached; a string that is
  already long enough is returned as it is.
\<close>

definition padStart :: "nat \<Rightarrow> char \<Rightarrow> string \<Rightarrow> string" where
  "padStart targetLength c s = replicate (targetLength - length s) c @ s"

text \<open>Reading a digit string back, used to state what a rendering denotes.\<close>

definition is_digit :: "char \<Rightarrow> bool" where
  "is_digit c = (48 \<le> (of_char c :: nat) \<and> (of_char c :: nat) \<le> 57)"

text \<open>The characters that the notation of a Number is made of.\<close>

definition is_numeric_char :: "char \<Rightarrow> bool" where
  "is_numeric_char c =
     (is_digit c \<or> c = CHR ''.'' \<or> c = CHR ''e'' \<or> c = CHR ''+'' \<or> c = CHR ''-'')"

definition digit_val :: "char \<Rightarrow> nat" where
  "digit_val c = of_char c - 48"

definition nat_of_digits :: "string \<Rightarrow> nat" where
  "nat_of_digits s = foldl (\<lambda>a c. 10 * a + digit_val c) 0 s"

section \<open>Numbers of the JavaScript runtime\<close>

text \<open>
  A finite Number is modelled by the rational it denotes (every binary64 value is a
  dyadic rational; \<open>+0\<close> and \<open>-0\<close> are both \<open>0\<close>). \<open>NaN\<close> and the infinities are not
  values of the model. \<open>fl\<close> is the rounding that every arithmetic operation of the
  runtime applies to its exact result: to the nearest binary64 value, ties to the even
  significand, with gradual underflow. Overflow is not part of \<open>fl\<close>: where it matters
  (reading a JSON number) the caller compares with \<open>2^1024\<close>.
\<close>

type_synonym number = rat

definition pow2 :: "int \<Rightarrow> rat" where
  "pow2 e = (if 0 \<le> e then 2 ^ nat e else 1 / 2 ^ nat (- e))"

definition pow10 :: "int \<Rightarrow> rat" where
  "pow10 e = (if 0 \<le> e then 10 ^ nat e else 1 / 10 ^ nat (- e))"

text \<open>For \<open>x > 0\<close>, the \<open>e\<close> with \<open>2^e \<le> x < 2^(e+1)\<close>.\<close>

definition binary_exponent :: "rat \<Rightarrow> int" where
  "binary_exponent x =
     (if 1 \<le> x then bitlen \<lfloor>x\<rfloor> - 1 else - bitlen (\<lceil>1 / x\<rceil> - 1))"

definition round_half_even :: "rat \<Rightarrow> int" where
  "round_half_even q =
     (let n = \<lfloor>q\<rfloor>; r = q - of_int n
      in if r < 1 / 2 then n else if 1 / 2 < r then n + 1 else if even n then n else n + 1)"

definition fl :: "rat \<Rightarrow> number" where
  "fl x =
     (if x = 0 then 0
      else let a = \<bar>x\<bar>;
               e = max (binary_exponent a) (- 1022);
               ulp = pow2 (e - 52)
           in sgn x * of_int (round_half_even (a / ulp)) * ulp)"

text \<open>The rationals that are binary64 values.\<close>

definition is_double :: "rat \<Rightarrow> bool" where
  "is_double x = (fl x = x \<and> \<bar>x\<bar> < 2 ^ 1024)"

subsection \<open>Number to string\<close>

text \<open>For \<open>x > 0\<close>, the \<open>n\<close> with \<open>10^(n-1) \<le> x < 10^n\<close>.\<close>

definition decimal_exponent :: "rat \<Rightarrow> int" where
  "decimal_exponent x =
     (if 1 \<le> x then int (floorlog 10 (nat \<lfloor>x\<rfloor>))
      else 1 - int (floorlog 10 (nat (\<lceil>1 / x\<rceil> - 1))))"

text \<open>
  \<^verbatim>\<open>Number::toString\<close> (radix 10) of ECMAScript takes integers \<open>n\<close>, \<open>k\<close> and \<open>s\<close> with
  \<open>k \<ge> 1\<close>, \<open>10^(k-1) \<le> s < 10^k\<close>, such that \<open>s * 10^(n-k)\<close> rounds to \<open>x\<close> and \<open>k\<close> is as
  small as possible; among several \<open>s\<close> the one closest to \<open>x\<close>, the even one on a tie.
  A decimal is the pair \<open>(s, e)\<close> denoting \<open>s * 10^e\<close>. The \<open>k\<close>-digit decimals next to
  \<open>x\<close> are the two around \<open>x\<close> on the grid of step \<open>10^(decimal_exponent x - k)\<close>.
\<close>

definition decimal_value :: "int \<times> int \<Rightarrow> rat" where
  "decimal_value d = of_int (fst d) * pow10 (snd d)"

definition candidates :: "rat \<Rightarrow> nat \<Rightarrow> (int \<times> int) list" where
  "candidates x k =
     (let e = decimal_exponent x - int k; lo = \<lfloor>x / pow10 e\<rfloor>
      in filter (\<lambda>d. fl (decimal_value d) = x) [(lo, e), (lo + 1, e)])"

definition closest :: "rat \<Rightarrow> (int \<times> int) list \<Rightarrow> (int \<times> int) option" where
  "closest x ds =
     (case ds of
        [] \<Rightarrow> None
      | [d] \<Rightarrow> Some d
      | d1 # d2 # _ \<Rightarrow>
          (let a1 = \<bar>decimal_value d1 - x\<bar>; a2 = \<bar>decimal_value d2 - x\<bar>
           in if a1 < a2 then Some d1 else if a2 < a1 then Some d2
              else if even (fst d1) then Some d1 else Some d2))"

text \<open>
  The search for the least \<open>k\<close>, from \<open>k\<close> upwards through at most \<open>fuel\<close> values. Seventeen
  digits always suffice for a binary64 value.
\<close>

fun shortest_from :: "rat \<Rightarrow> nat \<Rightarrow> nat \<Rightarrow> (int \<times> int) option" where
  "shortest_from x k 0 = None"
| "shortest_from x k (Suc fuel) =
     (case closest x (candidates x k) of
        Some d \<Rightarrow> Some d
      | None \<Rightarrow> shortest_from x (Suc k) fuel)"

text \<open>
  The exact decimal expansion of a binary64 value \<open>x > 0\<close>: with \<open>u\<close> the unit in the
  last place, \<open>x = m * u\<close> for an integer \<open>m\<close>, and \<open>u = 2^j\<close> is \<open>5^(-j) * 10^j\<close> for
  negative \<open>j\<close>. It closes the search, which never gets there on a binary64 value.
\<close>

definition exact_decimal :: "rat \<Rightarrow> int \<times> int" where
  "exact_decimal x =
     (let j = max (binary_exponent x) (- 1022) - 52; m = \<lfloor>x / pow2 j\<rfloor>
      in if 0 \<le> j then (m * 2 ^ nat j, 0) else (m * 5 ^ nat (- j), j))"

definition shortest_decimal :: "rat \<Rightarrow> int \<times> int" where
  "shortest_decimal x =
     (case shortest_from x 1 17 of Some d \<Rightarrow> d | None \<Rightarrow> exact_decimal x)"

text \<open>Dropping the trailing zeros of \<open>s\<close>: \<open>(10, e)\<close> is \<open>(1, e + 1)\<close>.\<close>

function strip_zeros :: "int \<times> int \<Rightarrow> int \<times> int" where
  "strip_zeros (s, e) =
     (if 0 < s \<and> s mod 10 = 0 then strip_zeros (s div 10, e + 1) else (s, e))"
  by pat_completeness auto
termination
  by (relation "measure (\<lambda>(s, e). nat s)") auto

declare strip_zeros.simps [simp del]

text \<open>
  The notation of a decimal \<open>(s, e)\<close> with \<open>s > 0\<close> not divisible by 10: with \<open>k\<close> the
  number of digits of \<open>s\<close> and \<open>n = e + k\<close>, positional notation for \<open>-5 \<le> n \<le> 21\<close> and
  exponent notation otherwise.
\<close>

definition decimal_notation :: "int \<times> int \<Rightarrow> string" where
  "decimal_notation d =
     (let ds = toString (nat (fst d)); k = int (length ds); n = snd d + k
      in if - 5 \<le> n \<and> n \<le> 21 then
           (if k \<le> n then ds @ replicate (nat (n - k)) (CHR ''0'')
            else if 0 < n then take (nat n) ds @ ''.'' @ drop (nat n) ds
            else ''0.'' @ replicate (nat (- n)) (CHR ''0'') @ ds)
         else
           (if k = 1 then ds else take 1 ds @ ''.'' @ drop 1 ds) @ ''e'' @
           (if 0 \<le> n - 1 then ''+'' else ''-'') @ toString (nat \<bar>n - 1\<bar>))"

definition number_toString :: "number \<Rightarrow> string" where
  "number_toString x =
     (if x = 0 then ''0''
      else (if x < 0 then ''-'' else []) @
           decimal_notation (strip_zeros (shortest_decimal \<bar>x\<bar>)))"

subsection \<open>toFixed\<close>

text \<open>
  \<^verbatim>\<open>Number.prototype.toFixed(f)\<close> for \<open>0 \<le> f \<le> 100\<close> on a finite Number: below \<open>10^21\<close> the
  integer \<open>n\<close> with \<open>n / 10^f\<close> nearest to \<open>\<bar>x\<bar>\<close> (the larger one on a tie), written with
  \<open>f\<close> digits after the point; from \<open>10^21\<close> on, the Number's own string.
\<close>

definition toFixed :: "nat \<Rightarrow> number \<Rightarrow> string" where
  "toFixed f x =
     (let s = (if x < 0 then ''-'' else []); a = \<bar>x\<bar>
      in if 10 ^ 21 \<le> a then s @ number_toString a
         else
           let n = \<lfloor>a * 10 ^ f + 1 / 2\<rfloor>;
               m = toString (nat n);
               m = (if f \<noteq> 0 \<and> length m \<le> f
                    then replicate (f + 1 - length m) (CHR ''0'') @ m else m);
               k = length m
           in if f \<noteq> 0 then s @ take (k - f) m @ ''.'' @ drop (k - f) m else s @ m)"

section \<open>Timer display\<close>

text \<open>
  \<^verbatim>\<open>Math.floor\<close> of a finite Number, which is a Number, and the remainder operator
  \<^verbatim>\<open>%\<close> on finite Numbers with a divisor that is not zero: the remainder has the sign of the
  dividend and is computed without rounding.
\<close>

definition Math_floor :: "number \<Rightarrow> number" where
  "Math_floor x = of_int \<lfloor>x\<rfloor>"

definition remainder :: "number \<Rightarrow> number \<Rightarrow> number" where
  "remainder a b = a - b * of_int (if 0 \<le> a / b then \<lfloor>a / b\<rfloor> else \<lceil>a / b\<rceil>)"

text \<open>
  \<^verbatim>\<open>formatTime\<close> of \<^verbatim>\<open>src/App.js\<close>, on Numbers: each division is rounded to binary64 as
  the runtime rounds it, and \<^verbatim>\<open>toString\<close> is the Number's own notation.
\<close>

definition formatTime :: "number \<Rightarrow> string" where
  "formatTime milliseconds =
     (let totalSeconds = Math_floor (fl (milliseconds / 1000));
          minutes = Math_floor (fl (totalSeconds / 60));
          seconds = remainder totalSeconds 60;
          ms = Math_floor (fl (remainder milliseconds 1000 / 10))
      in padStart 2 (CHR ''0'') (number_toString minutes) @ '':'' @
         padStart 2 (CHR ''0'') (number_toString seconds) @ ''.'' @
         padStart 2 (CHR ''0'') (number_toString ms))"

section \<open>JSON of the JavaScript runtime\<close>

text \<open>
  The values \<^verbatim>\<open>JSON.parse\<close> produces and \<^verbatim>\<open>JSON.stringify\<close> reads. A \<open>char\<close> is a
  code unit below 256. An object is the list of its members in their order.
\<close>

datatype json =
    JNull
  | JBool bool
  | JNumber number
  | JString string
  | JArray "json list"
  | JObject "(string \<times> json) list"

definition dquote :: char where
  "dquote = CHR 0x22"

definition backslash :: char where
  "backslash = CHR 0x5C"

definition newline :: char where
  "newline = CHR 0x0A"

text \<open>\<^verbatim>\<open>Array.prototype.join(separator)\<close> on an array of strings.\<close>

fun join :: "string \<Rightarrow> string list \<Rightarrow> string" where
  "join sep [] = []"
| "join sep [x] = x"
| "join sep (x # y # ys) = x @ sep @ join sep (y # ys)"

subsection \<open>JSON.stringify\<close>

definition hex_digit :: "nat \<Rightarrow> char" where
  "hex_digit d = (if d < 10 then char_of (48 + d) else char_of (87 + d))"

text \<open>
  \<^verbatim>\<open>QuoteJSONString\<close>: the two-character escapes, \<^verbatim>\<open>\u00XX\<close> for the other code units
  below 32, every other code unit as it is.
\<close>

definition quote_unit :: "char \<Rightarrow> string" where
  "quote_unit c =
     (let n = (of_char c :: nat)
      in if n = 8 then [backslash, CHR ''b'']
         else if n = 9 then [backslash, CHR ''t'']
         else if n = 10 then [backslash, CHR ''n'']
         else if n = 12 then [backslash, CHR ''f'']
         else if n = 13 then [backslash, CHR ''r'']
         else if c = dquote then [backslash, dquote]
         else if c = backslash then [backslash, backslash]
         else if n < 32 then
           [backslash, CHR ''u'', CHR ''0'', CHR ''0'', hex_digit (n div 16), hex_digit (n mod 16)]
         else [c])"

definition QuoteJSONString :: "string \<Rightarrow> string" where
  "QuoteJSONString s = dquote # concat (map quote_unit s) @ [dquote]"

text \<open>\<^verbatim>\<open>JSON.stringify(value)\<close> with no replacer and no indentation.\<close>

fun JSON_stringify :: "json \<Rightarrow> string"
  and stringify_elements :: "json list \<Rightarrow> string list"
  and stringify_members :: "(string \<times> json) list \<Rightarrow> string list"
where
  "JSON_stringify JNull = ''null''"
| "JSON_stringify (JBool b) = (if b then ''true'' else ''false'')"
| "JSON_stringify (JNumber x) = number_toString x"
| "JSON_stringify (JString s) = QuoteJSONString s"
| "JSON_stringify (JArray vs) = ''['' @ join '','' (stringify_elements vs) @ '']''"
| "JSON_stringify (JObject ms) = ''{'' @ join '','' (stringify_members ms) @ ''}''"
| "stringify_elements [] = []"
| "stringify_elements (v # vs) = JSON_stringify v # stringify_elements vs"
| "stringify_members [] = []"
| "stringify_members (m # ms) =
     (QuoteJSONString (fst m) @ '':'' @ JSON_stringify (snd m)) # stringify_members ms"

subsection \<open>JSON.parse\<close>

text \<open>
  The outcome of reading a text: a value and the rest of the text; \<open>Malformed\<close> where
  the runtime throws a \<^verbatim>\<open>SyntaxError\<close>; \<open>Beyond\<close> where the text is JSON whose value the
  model has no term for (a code unit from 256 on, a number that overflows to
  \<^verbatim>\<open>Infinity\<close>) or the reader's fuel is used up.
\<close>

datatype 'a parsed = Parsed 'a | Malformed | Beyond

definition is_ws :: "char \<Rightarrow> bool" where
  "is_ws c = (c = CHR '' '' \<or> c = CHR 0x09 \<or> c = CHR 0x0A \<or> c = CHR 0x0D)"

definition skip_ws :: "string \<Rightarrow> string" where
  "skip_ws s = dropWhile is_ws s"

definition hex_val :: "char \<Rightarrow> nat option" where
  "hex_val c =
     (let n = (of_char c :: nat)
      in if 48 \<le> n \<and> n \<le> 57 then Some (n - 48)
         else if 97 \<le> n \<and> n \<le> 102 then Some (n - 87)
         else if 65 \<le> n \<and> n \<le> 70 then Some (n - 55)
         else None)"

definition hex4 :: "char \<Rightarrow> char \<Rightarrow> char \<Rightarrow> char \<Rightarrow> nat option" where
  "hex4 a b c d =
     (case (hex_val a, hex_val b, hex_val c, hex_val d) of
        (Some p, Some q, Some r, Some s) \<Rightarrow> Some (((p * 16 + q) * 16 + r) * 16 + s)
      | _ \<Rightarrow> None)"

text \<open>The characters of a string after its opening quote, up to the closing one.\<close>

fun parse_chars :: "string \<Rightarrow> string \<Rightarrow> (string \<times> string) parsed" where
  "parse_chars [] acc = Malformed"
| "parse_chars (c # cs) acc =
     (if c = dquote then Parsed (acc, cs)
      else if c = backslash then
        (case cs of
           [] \<Rightarrow> Malformed
         | e # es \<Rightarrow>
             if e = dquote then parse_chars es (acc @ [dquote])
             else if e = backslash then parse_chars es (acc @ [backslash])
             else if e = CHR ''/'' then parse_chars es (acc @ ''/'')
             else if e = CHR ''b'' then parse_chars es (acc @ [CHR 0x08])
             else if e = CHR ''f'' then parse_chars es (acc @ [CHR 0x0C])
             else if e = CHR ''n'' then parse_chars es (acc @ [CHR 0x0A])
             else if e = CHR ''r'' then parse_chars es (acc @ [CHR 0x0D])
             else if e = CHR ''t'' then parse_chars es (acc @ [CHR 0x09])
             else if e = CHR ''u'' then
               (case es of
                  h1 # h2 # h3 # h4 # r \<Rightarrow>
                    (case hex4 h1 h2 h3 h4 of
                       None \<Rightarrow> Malformed
                     | Some n \<Rightarrow> if n < 256 then parse_chars r (acc @ [char_of n]) else Beyond)
                | _ \<Rightarrow> Malformed)
             else Malformed)
      else if (of_char c :: nat) < 32 then Malformed
      else parse_chars cs (acc @ [c]))"

text \<open>
  A number token: an optional minus, \<open>0\<close> or digits that do not start with \<open>0\<close>, an
  optional fraction, an optional exponent. Its value is the Number nearest to the decimal
  it writes.
\<close>

definition parse_exponent :: "string \<Rightarrow> (int \<times> string) option" where
  "parse_exponent s =
     (case s of
        [] \<Rightarrow> Some (0, s)
      | c # cs \<Rightarrow>
          if c = CHR ''e'' \<or> c = CHR ''E'' then
            (let neg = (case cs of [] \<Rightarrow> False | d # _ \<Rightarrow> d = CHR ''-'');
                 cs' = (case cs of [] \<Rightarrow> [] | d # ds \<Rightarrow> if d = CHR ''-'' \<or> d = CHR ''+'' then ds else cs);
                 es = takeWhile is_digit cs'
             in if es = [] then None
                else Some ((if neg then - int (nat_of_digits es) else int (nat_of_digits es)),
                           dropWhile is_digit cs'))
          else Some (0, s))"

definition parse_number :: "string \<Rightarrow> (json \<times> string) parsed" where
  "parse_number s =
     (let neg = (case s of [] \<Rightarrow> False | c # _ \<Rightarrow> c = CHR ''-'');
          s1 = (if neg then tl s else s);
          ds = takeWhile is_digit s1;
          s2 = dropWhile is_digit s1
      in if ds = [] \<or> (1 < length ds \<and> hd ds = CHR ''0'') then Malformed
         else
           let has_frac = (case s2 of [] \<Rightarrow> False | c # _ \<Rightarrow> c = CHR ''.'');
               fs = (if has_frac then takeWhile is_digit (tl s2) else []);
               s3 = (if has_frac then dropWhile is_digit (tl s2) else s2)
           in if has_frac \<and> fs = [] then Malformed
              else
                (case parse_exponent s3 of
                   None \<Rightarrow> Malformed
                 | Some (ex, rest) \<Rightarrow>
                     let v = of_nat (nat_of_digits (ds @ fs)) * pow10 (ex - int (length fs));
                         x = fl (if neg then - v else v)
                     in if 2 ^ 1024 \<le> \<bar>x\<bar> then Beyond else Parsed (JNumber x, rest)))"

definition parse_literal :: "string \<Rightarrow> json \<Rightarrow> string \<Rightarrow> (json \<times> string) parsed" where
  "parse_literal word v s =
     (if take (length word) s = word then Parsed (v, drop (length word) s) else Malformed)"

text \<open>
  The reader of values. Each call of a value, of the elements of an array or of the
  members of an object takes one unit of fuel.
\<close>

fun parse_value :: "nat \<Rightarrow> string \<Rightarrow> (json \<times> string) parsed"
  and parse_elements :: "nat \<Rightarrow> string \<Rightarrow> json list \<Rightarrow> (json list \<times> string) parsed"
  and parse_members ::
    "nat \<Rightarrow> string \<Rightarrow> (string \<times> json) list \<Rightarrow> ((string \<times> json) list \<times> string) parsed"
where
  "parse_value 0 s = Beyond"
| "parse_value (Suc n) s =
     (case skip_ws s of
        [] \<Rightarrow> Malformed
      | c # cs \<Rightarrow>
          if c = CHR ''['' then
            (case skip_ws cs of
               [] \<Rightarrow> Malformed
             | d # ds \<Rightarrow>
                 if d = CHR '']'' then Parsed (JArray [], ds)
                 else (case parse_elements n (d # ds) [] of
                         Parsed (vs, r) \<Rightarrow> Parsed (JArray vs, r)
                       | Malformed \<Rightarrow> Malformed
                       | Beyond \<Rightarrow> Beyond))
          else if c = CHR ''{'' then
            (case skip_ws cs of
               [] \<Rightarrow> Malformed
             | d # ds \<Rightarrow>
                 if d = CHR ''}'' then Parsed (JObject [], ds)
                 else (case parse_members n (d # ds) [] of
                         Parsed (ms, r) \<Rightarrow> Parsed (JObject ms, r)
                       | Malformed \<Rightarrow> Malformed
                       | Beyond \<Rightarrow> Beyond))
          else if c = dquote then
            (case parse_chars cs [] of
               Parsed (str, r) \<Rightarrow> Parsed (JString str, r)
             | Malformed \<Rightarrow> Malformed
             | Beyond \<Rightarrow> Beyond)
          else if c = CHR ''t'' then parse_literal ''true'' (JBool True) (c # cs)
          else if c = CHR ''f'' then parse_literal ''false'' (JBool False) (c # cs)
          else if c = CHR ''n'' then parse_literal ''null'' JNull (c # cs)
          else parse_number (c # cs))"
| "parse_elements 0 s acc = Beyond"
| "parse_elements (Suc n) s acc =
     (case parse_value n s of
        Parsed (v, r) \<Rightarrow>
          (case skip_ws r of
             [] \<Rightarrow> Malformed
           | c # cs \<Rightarrow>
               if c = CHR '','' then parse_elements n cs (acc @ [v])
               else if c = CHR '']'' then Parsed (acc @ [v], cs)
               else Malformed)
      | Malformed \<Rightarrow> Malformed
      | Beyond \<Rightarrow> Beyond)"
| "parse_members 0 s acc = Beyond"
| "parse_members (Suc n) s acc =
     (case skip_ws s of
        [] \<Rightarrow> Malformed
      | c # cs \<Rightarrow>
          if c \<noteq> dquote then Malformed
          else
            (case parse_chars cs [] of
               Parsed (key, r) \<Rightarrow>
                 (case skip_ws r of
                    [] \<Rightarrow> Malformed
                  | c2 # r2 \<Rightarrow>
                      if c2 \<noteq> CHR '':'' then Malformed
                      else
                        (case parse_value n r2 of
                           Parsed (v, r3) \<Rightarrow>
                             (case skip_ws r3 of
                                [] \<Rightarrow> Malformed
                              | c3 # r4 \<Rightarrow>
                                  if c3 = CHR '','' then parse_members n r4 (acc @ [(key, v)])
                                  else if c3 = CHR ''}'' then Parsed (acc @ [(key, v)], r4)
                                  else Malformed)
                         | Malformed \<Rightarrow> Malformed
                         | Beyond \<Rightarrow> Beyond))
             | Malformed \<Rightarrow> Malformed
             | Beyond \<Rightarrow> Beyond))"

text \<open>
  \<^verbatim>\<open>JSON.parse(text)\<close>: one value, with nothing but white space after it. Two units
  of fuel for each character are more than the reader can use.
\<close>

definition JSON_parse :: "string \<Rightarrow> json parsed" where
  "JSON_parse text =
     (case parse_value (2 * length text + 2) text of
        Parsed (v, r) \<Rightarrow> if skip_ws r = [] then Parsed v else Malformed
      | Malformed \<Rightarrow> Malformed
      | Beyond \<Rightarrow> Beyond)"

section \<open>Sessions and their persistence\<close>

text \<open>
  A session as \<^verbatim>\<open>handleSave\<close> builds it:
  \<^verbatim>\<open>{ id, time, timeMinutes, date, notes }\<close>. The fields \<^verbatim>\<open>id\<close> and \<^verbatim>\<open>notes\<close> are \<open>session_id\<close> and \<open>session_notes\<close> here.
\<close>

record session =
  session_id :: number
  time :: number
  timeMinutes :: number
  date :: string
  session_notes :: string

definition json_of_session :: "session \<Rightarrow> json" where
  "json_of_session s =
     JObject [(''id'', JNumber (session_id s)), (''time'', JNumber (time s)),
              (''timeMinutes'', JNumber (timeMinutes s)), (''date'', JString (date s)),
              (''notes'', JString (session_notes s))]"

definition json_of_sessions :: "session list \<Rightarrow> json" where
  "json_of_sessions sessionLog = JArray (map json_of_session sessionLog)"

text \<open>
  The parsed values that are lists of such sessions. Any other parsed value is outside
  the typed state of this model.
\<close>

definition as_number :: "json \<Rightarrow> number option" where
  "as_number v = (case v of JNumber x \<Rightarrow> Some x | _ \<Rightarrow> None)"

definition as_string :: "json \<Rightarrow> string option" where
  "as_string v = (case v of JString s \<Rightarrow> Some s | _ \<Rightarrow> None)"

definition session_of_json :: "json \<Rightarrow> session option" where
  "session_of_json v =
     (case v of
        JObject ms \<Rightarrow>
          if map fst ms = [''id'', ''time'', ''timeMinutes'', ''date'', ''notes''] then
            (case (as_number (snd (ms ! 0)), as_number (snd (ms ! 1)), as_number (snd (ms ! 2)),
                   as_string (snd (ms ! 3)), as_string (snd (ms ! 4))) of
               (Some i, Some t, Some m, Some d, Some n) \<Rightarrow>
                 Some \<lparr>session_id = i, time = t, timeMinutes = m, date = d, session_notes = n\<rparr>
             | _ \<Rightarrow> None)
          else None
      | _ \<Rightarrow> None)"

fun all_some :: "'a option list \<Rightarrow> 'a list option" where
  "all_some [] = Some []"
| "all_some (x # xs) =
     (case x of
        None \<Rightarrow> None
      | Some y \<Rightarrow> (case all_some xs of None \<Rightarrow> None | Some ys \<Rightarrow> Some (y # ys)))"

definition sessions_of_json :: "json \<Rightarrow> session list option" where
  "sessions_of_json v =
     (case v of JArray vs \<Rightarrow> all_some (map session_of_json vs) | _ \<Rightarrow> None)"

subsection \<open>localStorage\<close>

text \<open>
  The browser's storage: the stored items, and the list of the \<^verbatim>\<open>setItem\<close> calls made so
  far, which tells a write of an unchanged value from no write. Storage is unbounded
  here: no call fails for lack of quota.
\<close>

record localStorage =
  items :: "string \<Rightarrow> string option"
  setItem_calls :: "(string \<times> string) list"

definition getItem :: "string \<Rightarrow> localStorage \<Rightarrow> string option" where
  "getItem key storage = items storage key"

definition setItem :: "string \<Rightarrow> string \<Rightarrow> localStorage \<Rightarrow> localStorage" where
  "setItem key v storage =
     storage\<lparr>items := (items storage)(key \<mapsto> v),
             setItem_calls := setItem_calls storage @ [(key, v)]\<rparr>"

subsection \<open>The state of the component\<close>

text \<open>
  The \<^verbatim>\<open>useState\<close> cells of \<^verbatim>\<open>TeaTimer\<close>. The cells \<^verbatim>\<open>time\<close> and \<^verbatim>\<open>notes\<close> are \<open>st_time\<close>
  and \<open>st_notes\<close>. \<open>st_time\<close> is a Number that only ever holds a multiple of ten.
\<close>

record state =
  st_time :: nat
  isRunning :: bool
  showSaveDialog :: bool
  st_notes :: string
  sessions :: "session list"
  activeView :: string

definition initial :: state where
  "initial = \<lparr>st_time = 0, isRunning = False, showSaveDialog = False, st_notes = [],
              sessions = [], activeView = ''timer''\<rparr>"

datatype error = SyntaxError

text \<open>
  What running a piece of code comes to: it returns, it throws, or it leaves in the
  state a value that is not a list of sessions (\<open>Untyped\<close>).
\<close>

datatype 'a outcome = Returns 'a | Throws error | Untyped

text \<open>The effect that loads the sessions on mount.\<close>

definition load_effect :: "localStorage \<Rightarrow> state \<Rightarrow> state outcome" where
  "load_effect storage st =
     (case getItem ''teaSessions'' storage of
        None \<Rightarrow> Returns st
      | Some savedSessions \<Rightarrow>
          if savedSessions = [] then Returns st
          else
            (case JSON_parse savedSessions of
               Malformed \<Rightarrow> Throws SyntaxError
             | Beyond \<Rightarrow> Untyped
             | Parsed v \<Rightarrow>
                 (case sessions_of_json v of
                    Some loaded \<Rightarrow> Returns (st\<lparr>sessions := loaded\<rparr>)
                  | None \<Rightarrow> Untyped)))"

text \<open>The effect that saves the sessions whenever they change.\<close>

definition persist_effect :: "state \<Rightarrow> localStorage \<Rightarrow> localStorage" where
  "persist_effect st storage =
     (if length (sessions st) > 0
      then setItem ''teaSessions'' (JSON_stringify (json_of_sessions (sessions st))) storage
      else storage)"

text \<open>
  Mounting the component: after the first render, with the sessions still empty, the
  load effect and then the persist effect run; when the load effect has set the sessions,
  the component renders again and the persist effect runs on the loaded sessions.
\<close>

definition mount :: "localStorage \<Rightarrow> (state \<times> localStorage) outcome" where
  "mount storage =
     (case load_effect storage initial of
        Returns st \<Rightarrow>
          (let storage1 = persist_effect initial storage
           in Returns (st, if sessions st \<noteq> sessions initial
                           then persist_effect st storage1 else storage1))
      | Throws e \<Rightarrow> Throws e
      | Untyped \<Rightarrow> Untyped)"

subsection \<open>Timer controls\<close>

definition tick :: "state \<Rightarrow> state" where
  "tick st = (if isRunning st then st\<lparr>st_time := st_time st + 10\<rparr> else st)"

definition handleStartStop :: "state \<Rightarrow> state" where
  "handleStartStop st = st\<lparr>isRunning := \<not> isRunning st\<rparr>"

definition handleReset :: "state \<Rightarrow> state" where
  "handleReset st = st\<lparr>st_time := 0, isRunning := False, st_notes := []\<rparr>"

text \<open>
  \<^verbatim>\<open>handleSave\<close>; \<open>now\<close> is what \<^verbatim>\<open>Date.now()\<close> returns and \<open>isoString\<close> what
  \<^verbatim>\<open>new Date().toISOString()\<close> returns at the call.
\<close>

definition handleSave :: "number \<Rightarrow> string \<Rightarrow> state \<Rightarrow> state" where
  "handleSave now isoString st =
     (if st_time st > 0 then
        let newSession =
              \<lparr>session_id = now,
               time = of_nat (st_time st),
               timeMinutes = fl (of_nat (st_time st) / 60000),
               date = isoString,
               session_notes = st_notes st\<rparr>
        in handleReset (st\<lparr>sessions := sessions st @ [newSession], showSaveDialog := False\<rparr>)
      else st)"

text \<open>
  What the user and the interval timer can do to a mounted component. After a handler
  has run, the persist effect runs if the sessions have changed.
\<close>

datatype event =
    Tick
  | StartStop
  | Reset
  | OpenSaveDialog
  | CancelSaveDialog
  | ChangeNotes string
  | Save number string
  | SetActiveView string

fun handle :: "event \<Rightarrow> state \<Rightarrow> state" where
  "handle Tick st = tick st"
| "handle StartStop st = handleStartStop st"
| "handle Reset st = handleReset st"
| "handle OpenSaveDialog st = st\<lparr>showSaveDialog := True\<rparr>"
| "handle CancelSaveDialog st = st\<lparr>showSaveDialog := False\<rparr>"
| "handle (ChangeNotes v) st = st\<lparr>st_notes := v\<rparr>"
| "handle (Save now isoString) st = handleSave now isoString st"
| "handle (SetActiveView v) st = st\<lparr>activeView := v\<rparr>"

definition step :: "event \<Rightarrow> state \<times> localStorage \<Rightarrow> state \<times> localStorage" where
  "step ev c =
     (let st = fst c; storage = snd c; st' = handle ev st
      in (st', if sessions st' \<noteq> sessions st then persist_effect st' storage else storage))"

fun run :: "event list \<Rightarrow> state \<times> localStorage \<Rightarrow> state \<times> localStorage" where
  "run [] c = c"
| "run (ev # evs) c = run evs (step ev c)"

section \<open>Statistics\<close>

text \<open>
  A field of the object \<^verbatim>\<open>getStats\<close> returns is a Number on one path and a string on
  the other. \<open>render\<close> is the text React shows for such a value as a child of an element.
\<close>

datatype stat = Num number | Str string

record stats =
  average :: stat
  shortest :: stat
  longest :: stat

definition getStats :: "session list \<Rightarrow> stats" where
  "getStats sessionLog =
     (if length sessionLog = 0 then \<lparr>average = Num 0, shortest = Num 0, longest = Num 0\<rparr>
      else
        let times = map timeMinutes sessionLog;
            average = fl (foldl (\<lambda>a b. fl (a + b)) 0 times / of_nat (length times));
            shortest = Min (set times);
            longest = Max (set times)
        in \<lparr>average = Str (toFixed 2 average),
            shortest = Str (toFixed 2 shortest),
            longest = Str (toFixed 2 longest)\<rparr>)"

definition render :: "stat \<Rightarrow> string" where
  "render v = (case v of Num x \<Rightarrow> number_toString x | Str s \<Rightarrow> s)"

section \<open>CSV export\<close>

text \<open>
  The text \<^verbatim>\<open>exportToCSV\<close> puts into the downloaded file. \<open>toLocaleString\<close> stands for
  \<^verbatim>\<open>d => new Date(d).toLocaleString()\<close>, which depends on the locale of the browser;
  \<open>sessionLog\<close> is the value of the \<^verbatim>\<open>sessions\<close> cell.
\<close>

definition exportToCSV :: "(string \<Rightarrow> string) \<Rightarrow> session list \<Rightarrow> string" where
  "exportToCSV toLocaleString sessionLog =
     (let headers = [''Date'', ''Time (minutes)'', ''Notes''];
          rows = map (\<lambda>s. [toLocaleString (date s),
                            toFixed 2 (timeMinutes s),
                            if session_notes s \<noteq> [] then session_notes s else []]) sessionLog;
          csvContent =
            join [newline]
              (join '','' headers #
               map (\<lambda>row. join '','' (map (\<lambda>cell. [dquote] @ cell @ [dquote]) row)) rows)
      in csvContent)"

text \<open>A data row of the exported text.\<close>

definition csv_row :: "(string \<Rightarrow> string) \<Rightarrow> session \<Rightarrow> string" where
  "csv_row toLocaleString s =
     [dquote] @ toLocaleString (date s) @ [dquote] @ '','' @
     [dquote] @ toFixed 2 (timeMinutes s) @ [dquote] @ '','' @
     [dquote] @ session_notes s @ [dquote]"

section \<open>Reading a CSV text\<close>

text \<open>
  Two readers, used to state what the exported text contains. \<open>split\<close> is
  \<^verbatim>\<open>String.prototype.split\<close> with a one-character separator. \<open>quoted_fields\<close> reads a line
  made of fields between double quotes with commas between them; everything between an
  opening quote and the next quote is the field.
\<close>

fun split :: "char \<Rightarrow> string \<Rightarrow> string list" where
  "split sep [] = [[]]"
| "split sep (c # cs) =
     (if c = sep then [] # split sep cs
      else (case split sep cs of [] \<Rightarrow> [[c]] | l # ls \<Rightarrow> (c # l) # ls))"

datatype expecting = Opening_quote | Field_end | Comma_or_end

fun scan_fields :: "expecting \<Rightarrow> string list \<Rightarrow> string \<Rightarrow> string \<Rightarrow> string list option" where
  "scan_fields Opening_quote done cur [] = None"
| "scan_fields Opening_quote done cur (c # cs) =
     (if c = dquote then scan_fields Field_end done [] cs else None)"
| "scan_fields Field_end done cur [] = None"
| "scan_fields Field_end done cur (c # cs) =
     (if c = dquote then scan_fields Comma_or_end (done @ [cur]) [] cs
      else scan_fields Field_end done (cur @ [c]) cs)"
| "scan_fields Comma_or_end done cur [] = Some done"
| "scan_fields Comma_or_end done cur (c # cs) =
     (if c = CHR '','' then scan_fields Opening_quote done [] cs else None)"

definition quoted_fields :: "string \<Rightarrow> string list option" where
  "quoted_fields line = scan_fields Opening_quote [] [] line"

section \<open>Recent sessions\<close>

text \<open>
  \<^verbatim>\<open>sessions.slice(-3).reverse()\<close>. \<^verbatim>\<open>slice\<close> makes a new array; \<^verbatim>\<open>reverse\<close> changes the
  array it is called on and returns it. Arrays live in a store, at addresses; \<open>fresh\<close>
  is the next unused address.
\<close>

definition slice_list :: "int \<Rightarrow> 'a list \<Rightarrow> 'a list" where
  "slice_list start xs =
     (let len = int (length xs);
          k = (if start < 0 then max (len + start) 0 else min start len)
      in drop (nat k) xs)"

record 'a store =
  cell :: "nat \<Rightarrow> 'a list option"
  fresh :: nat





section \<open>Digit strings\<close>

lemma of_char_digit_char: "d < 10 \<Longrightarrow> (of_char (digit_char d) :: nat) = 48 + d"
  by (simp add: digit_char_def)

lemma is_digit_digit_char: "d < 10 \<Longrightarrow> is_digit (digit_char d)"
  by (simp add: is_digit_def of_char_digit_char)

lemma digit_val_digit_char: "d < 10 \<Longrightarrow> digit_val (digit_char d) = d"
  by (simp add: digit_val_def of_char_digit_char)

lemma nat_of_digits_snoc: "nat_of_digits (s @ [c]) = 10 * nat_of_digits s + digit_val c"
  by (simp add: nat_of_digits_def)

lemma toString_digits: "list_all is_digit (toString n)"
proof (induction n rule: toString.induct)
  case (1 n)
  show ?case
  proof (cases "n < 10")
    case True
    then show ?thesis by (simp add: toString.simps [of n] is_digit_digit_char)
  next
    case False
    with 1 show ?thesis by (simp add: toString.simps [of n] is_digit_digit_char)
  qed
qed

lemma nat_of_digits_toString: "nat_of_digits (toString n) = n"
proof (induction n rule: toString.induct)
  case (1 n)
  show ?case
  proof (cases "n < 10")
    case True
    then show ?thesis
      by (simp add: toString.simps [of n] nat_of_digits_def digit_val_digit_char)
  next
    case False
    with 1 show ?thesis
      by (simp add: toString.simps [of n] nat_of_digits_snoc digit_val_digit_char)
  qed
qed

lemma length_toString_pos: "0 < length (toString n)"
  by (subst toString.simps) simp

lemma length_toString_small: "n < 10 \<Longrightarrow> length (toString n) = 1"
  by (subst toString.simps) simp

lemma length_toString_two: "10 \<le> n \<Longrightarrow> n < 100 \<Longrightarrow> length (toString n) = 2"
  by (subst toString.simps) (simp add: length_toString_small)

lemma length_toString_big: "100 \<le> n \<Longrightarrow> 3 \<le> length (toString n)"
proof -
  assume h: "100 \<le> n"
  then have "10 \<le> n div 10" by simp
  then have "2 \<le> length (toString (n div 10))"
    using length_toString_pos [of "n div 10 div 10"]
    by (subst toString.simps) (simp add: Suc_le_eq)
  with h show ?thesis by (subst toString.simps) simp
qed

lemma nat_of_digits_zero_cons: "nat_of_digits (CHR ''0'' # s) = nat_of_digits s"
  by (simp add: nat_of_digits_def digit_val_def)

lemma nat_of_digits_replicate_zero:
  "nat_of_digits (replicate k (CHR ''0'') @ s) = nat_of_digits s"
  by (induction k) (simp_all add: nat_of_digits_zero_cons)

lemma nat_of_digits_padStart: "nat_of_digits (padStart k (CHR ''0'') s) = nat_of_digits s"
  by (simp add: padStart_def nat_of_digits_replicate_zero)

lemma padStart_digits: "list_all is_digit s \<Longrightarrow> list_all is_digit (padStart k (CHR ''0'') s)"
  by (auto simp: padStart_def is_digit_def list_all_iff)

lemma length_padStart: "length (padStart k c s) = max k (length s)"
  by (simp add: padStart_def)

lemma length_pad2_small: "n < 100 \<Longrightarrow> length (padStart 2 c (toString n)) = 2"
  using length_toString_small [of n] length_toString_two [of n]
  by (cases "n < 10") (simp_all add: length_padStart)

lemma digit_char_eval:
  "digit_char 0 = CHR ''0''" "digit_char 1 = CHR ''1''" "digit_char 2 = CHR ''2''"
  "digit_char 3 = CHR ''3''" "digit_char 4 = CHR ''4''" "digit_char 5 = CHR ''5''"
  "digit_char 6 = CHR ''6''" "digit_char 7 = CHR ''7''" "digit_char 8 = CHR ''8''"
  "digit_char 9 = CHR ''9''" "digit_char (Suc 0) = CHR ''1''"
  by code_simp+

section \<open>The session log only grows\<close>

lemma sessions_handle:
  "sessions (handle ev st) = sessions st \<or> (\<exists>s. sessions (handle ev st) = sessions st @ [s])"
  by (cases ev) (simp_all add: tick_def handleStartStop_def handleReset_def handleSave_def Let_def)

lemma sessions_handle_empty: "sessions (handle ev st) = [] \<Longrightarrow> sessions st = []"
  using sessions_handle [of ev st] by auto

lemma step_fst: "fst (step ev c) = handle ev (fst c)"
  by (simp add: step_def Let_def)

lemma step_snd:
  "snd (step ev c) =
     (if sessions (handle ev (fst c)) \<noteq> sessions (fst c)
      then persist_effect (handle ev (fst c)) (snd c) else snd c)"
  by (simp add: step_def Let_def)

lemma persist_effect_empty: "sessions st = [] \<Longrightarrow> persist_effect st storage = storage"
  by (simp add: persist_effect_def)

lemma persist_effect_nonempty:
  "sessions st \<noteq> [] \<Longrightarrow>
     persist_effect st storage =
       setItem ''teaSessions'' (JSON_stringify (json_of_sessions (sessions st))) storage"
  by (simp add: persist_effect_def)

lemma step_empty_keeps_storage: "sessions (fst (step ev c)) = [] \<Longrightarrow> snd (step ev c) = snd c"
  by (simp add: step_fst step_snd persist_effect_empty)

lemma step_empty_before: "sessions (fst (step ev c)) = [] \<Longrightarrow> sessions (fst c) = []"
  by (simp add: step_fst sessions_handle_empty)

lemma run_empty_before: "sessions (fst (run evs c)) = [] \<Longrightarrow> sessions (fst c) = []"
proof (induction evs arbitrary: c)
  case Nil
  then show ?case by simp
next
  case (Cons ev evs)
  from Cons.prems have "sessions (fst (run evs (step ev c))) = []" by simp
  then have "sessions (fst (step ev c)) = []" by (rule Cons.IH)
  then show ?case by (rule step_empty_before)
qed

lemma run_empty_keeps_storage: "sessions (fst (run evs c)) = [] \<Longrightarrow> snd (run evs c) = snd c"
proof (induction evs arbitrary: c)
  case Nil
  then show ?case by simp
next
  case (Cons ev evs)
  from Cons.prems have e: "sessions (fst (run evs (step ev c))) = []" by simp
  then have s1: "snd (run evs (step ev c)) = snd (step ev c)" by (rule Cons.IH)
  from e have "sessions (fst (step ev c)) = []" by (rule run_empty_before)
  then have "snd (step ev c) = snd c" by (rule step_empty_keeps_storage)
  with s1 show ?case by simp
qed

lemma step_changed_persists:
  assumes "sessions (fst (step ev c)) \<noteq> sessions (fst c)"
  shows "snd (step ev c) =
           setItem ''teaSessions'' (JSON_stringify (json_of_sessions (sessions (fst (step ev c)))))
             (snd c)"
proof -
  from assms have ch: "sessions (handle ev (fst c)) \<noteq> sessions (fst c)"
    by (simp add: step_fst)
  with sessions_handle [of ev "fst c"] have "sessions (handle ev (fst c)) \<noteq> []" by auto
  with ch show ?thesis by (simp add: step_fst step_snd persist_effect_nonempty)
qed


lemma mount_empty_keeps_storage:
  assumes "mount storage = Returns (st, storage')" and "sessions st = []"
  shows "storage' = storage"
proof (cases "load_effect storage initial")
  case (Returns st0)
  with assms(1) have st: "st0 = st"
    and sto: "storage' = (if sessions st0 \<noteq> sessions initial
                          then persist_effect st0 (persist_effect initial storage)
                          else persist_effect initial storage)"
    by (auto simp: mount_def Let_def)
  have "persist_effect initial storage = storage"
    by (simp add: persist_effect_empty initial_def)
  with sto st assms(2) show ?thesis
    by (simp add: persist_effect_empty initial_def)
next
  case (Throws e)
  with assms(1) show ?thesis by (simp add: mount_def)
next
  case Untyped
  with assms(1) show ?thesis by (simp add: mount_def)
qed

text \<open>
  Claim C4. With the timer at zero, saving does nothing: \<^verbatim>\<open>handleSave\<close> returns the state
  it was given, so the session log is unchanged, and the step makes no \<^verbatim>\<open>setItem\<close> call
  and leaves the stored items as they were. \<^verbatim>\<open>handleSave\<close> has no path that throws.
\<close>

theorem save_at_zero_is_noop:
  assumes "st_time st = 0"
  shows "handleSave now d st = st \<and>
         step (Save now d) (st, storage) = (st, storage) \<and>
         sessions (fst (step (Save now d) (st, storage))) = sessions st \<and>
         setItem_calls (snd (step (Save now d) (st, storage))) = setItem_calls storage \<and>
         items (snd (step (Save now d) (st, storage))) = items storage"
proof -
  from assms have h: "handleSave now d st = st"
    by (simp add: handleSave_def)
  then have "step (Save now d) (st, storage) = (st, storage)"
    by (simp add: step_def Let_def)
  with h show ?thesis by simp
qed

theorem save_at_zero_witness:
  "st_time initial = 0 \<and>
   step (Save 1730641500000 ''2026-11-03T13:45:00.000Z'')
     (initial, \<lparr>items = Map.empty, setItem_calls = []\<rparr>) =
     (initial, \<lparr>items = Map.empty, setItem_calls = []\<rparr>)"
proof -
  have z: "st_time initial = 0" by (simp add: initial_def)
  from save_at_zero_is_noop [OF z] z show ?thesis by blast
qed

text \<open>
  Claim C6. The storage is written only with a non-empty log. A step that leaves the log
  empty leaves the storage as it was, and so does a step that does not change the log. A
  step that changes the log (an append) ends with a non-empty log and with one more
  \<^verbatim>\<open>setItem\<close> call, which stores the whole new log under \<^verbatim>\<open>teaSessions\<close>. Over any
  sequence of events that ends with an empty log, and after a mount that ends with an
  empty log, the storage is the one the run started with.
\<close>

theorem persist_only_nonempty:
  "(sessions (fst (step ev c)) = [] \<longrightarrow> snd (step ev c) = snd c) \<and>
   (sessions (fst (step ev c)) = sessions (fst c) \<longrightarrow> snd (step ev c) = snd c) \<and>
   (sessions (fst (step ev c)) \<noteq> sessions (fst c) \<longrightarrow>
      sessions (fst (step ev c)) \<noteq> [] \<and>
      snd (step ev c) =
        setItem ''teaSessions'' (JSON_stringify (json_of_sessions (sessions (fst (step ev c)))))
          (snd c) \<and>
      getItem ''teaSessions'' (snd (step ev c)) =
        Some (JSON_stringify (json_of_sessions (sessions (fst (step ev c)))))) \<and>
   (sessions (fst (run evs c)) = [] \<longrightarrow> snd (run evs c) = snd c) \<and>
   (sessions st = [] \<longrightarrow> persist_effect st storage = storage) \<and>
   (mount storage = Returns (st', storage') \<and> sessions st' = [] \<longrightarrow> storage' = storage)"
proof (intro conjI impI)
  assume "sessions (fst (step ev c)) = []"
  then show "snd (step ev c) = snd c" by (rule step_empty_keeps_storage)
next
  assume "sessions (fst (step ev c)) = sessions (fst c)"
  then show "snd (step ev c) = snd c" by (simp add: step_fst step_snd)
next
  assume ch: "sessions (fst (step ev c)) \<noteq> sessions (fst c)"
  with sessions_handle [of ev "fst c"] show "sessions (fst (step ev c)) \<noteq> []"
    by (auto simp: step_fst)
  from ch show w: "snd (step ev c) =
        setItem ''teaSessions'' (JSON_stringify (json_of_sessions (sessions (fst (step ev c)))))
          (snd c)"
    by (rule step_changed_persists)
  show "getItem ''teaSessions'' (snd (step ev c)) =
        Some (JSON_stringify (json_of_sessions (sessions (fst (step ev c)))))"
    by (subst w) (simp add: getItem_def setItem_def)
next
  assume "sessions (fst (run evs c)) = []"
  then show "snd (run evs c) = snd c" by (rule run_empty_keeps_storage)
next
  assume "sessions st = []"
  then show "persist_effect st storage = storage" by (rule persist_effect_empty)
next
  assume "mount storage = Returns (st', storage') \<and> sessions st' = []"
  then show "storage' = storage" using mount_empty_keeps_storage by blast
qed

theorem persist_only_nonempty_witness:
  "sessions (fst (step Tick (initial, \<lparr>items = Map.empty, setItem_calls = []\<rparr>))) = [] \<and>
   snd (step Tick (initial, \<lparr>items = Map.empty, setItem_calls = []\<rparr>)) =
     \<lparr>items = Map.empty, setItem_calls = []\<rparr> \<and>
   sessions (fst (step (Save 5 ''d'')
       (initial\<lparr>st_time := 20\<rparr>, \<lparr>items = Map.empty, setItem_calls = []\<rparr>))) \<noteq> [] \<and>
   setItem_calls (snd (step (Save 5 ''d'')
       (initial\<lparr>st_time := 20\<rparr>, \<lparr>items = Map.empty, setItem_calls = []\<rparr>))) =
     [(''teaSessions'', JSON_stringify (json_of_sessions
        (sessions (fst (step (Save 5 ''d'')
           (initial\<lparr>st_time := 20\<rparr>, \<lparr>items = Map.empty, setItem_calls = []\<rparr>))))))]"
proof -
  let ?sto = "\<lparr>items = Map.empty, setItem_calls = []\<rparr>"
  let ?c = "(initial\<lparr>st_time := 20\<rparr>, ?sto)"
  have e: "sessions (fst (step Tick (initial, ?sto))) = []"
    by (simp add: step_def Let_def tick_def initial_def)
  have n: "sessions (fst (step (Save 5 ''d'') ?c)) \<noteq> sessions (fst ?c)"
    by (simp add: step_def Let_def handleSave_def handleReset_def initial_def)
  from persist_only_nonempty [of Tick "(initial, ?sto)"] e
  have 1: "snd (step Tick (initial, ?sto)) = ?sto" by simp
  from persist_only_nonempty [of "Save 5 ''d''" ?c] n
  have 2: "sessions (fst (step (Save 5 ''d'') ?c)) \<noteq> []"
    and 3: "snd (step (Save 5 ''d'') ?c) =
        setItem ''teaSessions''
          (JSON_stringify (json_of_sessions (sessions (fst (step (Save 5 ''d'') ?c))))) (snd ?c)"
    by blast+
  have 4: "setItem_calls (snd (step (Save 5 ''d'') ?c)) =
     [(''teaSessions'', JSON_stringify (json_of_sessions (sessions (fst (step (Save 5 ''d'') ?c)))))]"
    by (subst 3) (simp add: setItem_def)
  from e 1 2 4 show ?thesis by (intro conjI)
qed

section \<open>Recent sessions: the last ones, most recent first\<close>



lemma slice_list_minus_0: "slice_list (- int 0) xs = xs"
  by (simp add: slice_list_def Let_def)






section \<open>Two decimal places\<close>

lemma nat_of_digits_append:
  "nat_of_digits (xs @ ys) = nat_of_digits xs * 10 ^ length ys + nat_of_digits ys"
proof (induction ys rule: rev_induct)
  case Nil
  then show ?case by (simp add: nat_of_digits_def)
next
  case (snoc y ys)
  have "nat_of_digits (xs @ ys @ [y]) = 10 * nat_of_digits (xs @ ys) + digit_val y"
    using nat_of_digits_snoc [of "xs @ ys" y] by simp
  also have "\<dots> = 10 * (nat_of_digits xs * 10 ^ length ys + nat_of_digits ys) + digit_val y"
    by (simp only: snoc.IH)
  also have "\<dots> = nat_of_digits xs * 10 ^ length (ys @ [y]) + nat_of_digits (ys @ [y])"
    by (simp add: nat_of_digits_snoc algebra_simps)
  finally show ?case .
qed

lemma digit_val_less: "is_digit c \<Longrightarrow> digit_val c < 10"
  by (auto simp: is_digit_def digit_val_def)

lemma nat_of_digits_less: "list_all is_digit ds \<Longrightarrow> nat_of_digits ds < 10 ^ length ds"
proof (induction ds rule: rev_induct)
  case Nil
  then show ?case by (simp add: nat_of_digits_def)
next
  case (snoc d ds)
  then have "nat_of_digits ds < 10 ^ length ds" and "digit_val d < 10"
    by (simp_all add: digit_val_less)
  then have "10 * nat_of_digits ds + digit_val d < 10 * 10 ^ length ds" by simp
  then show ?case by (simp add: nat_of_digits_snoc)
qed

lemma toFixed_2_unfold:
  assumes "\<bar>x\<bar> < 10 ^ 21"
  shows "toFixed 2 x =
     (if x < 0 then ''-'' else []) @
     take (length (padStart 3 (CHR ''0'') (toString (nat \<lfloor>\<bar>x\<bar> * 100 + 1 / 2\<rfloor>))) - 2)
       (padStart 3 (CHR ''0'') (toString (nat \<lfloor>\<bar>x\<bar> * 100 + 1 / 2\<rfloor>))) @ ''.'' @
     drop (length (padStart 3 (CHR ''0'') (toString (nat \<lfloor>\<bar>x\<bar> * 100 + 1 / 2\<rfloor>))) - 2)
       (padStart 3 (CHR ''0'') (toString (nat \<lfloor>\<bar>x\<bar> * 100 + 1 / 2\<rfloor>)))"
proof -
  let ?m = "toString (nat \<lfloor>\<bar>x\<bar> * 100 + 1 / 2\<rfloor>)"
  have pad: "(if length ?m \<le> 2 then replicate (3 - length ?m) (CHR ''0'') @ ?m else ?m) =
      padStart 3 (CHR ''0'') ?m"
    by (simp add: padStart_def)
  from assms have "\<not> 10 ^ 21 \<le> \<bar>x\<bar>" by simp
  then show ?thesis
    by (simp add: toFixed_def Let_def pad [symmetric] del: replicate.simps)
qed

lemma toFixed_2_parts:
  assumes "\<bar>x\<bar> < 10 ^ 21"
  shows "\<exists>ip fp. toFixed 2 x = (if x < 0 then ''-'' else []) @ ip @ ''.'' @ fp \<and>
           ip \<noteq> [] \<and> list_all is_digit ip \<and> list_all is_digit fp \<and> length fp = 2 \<and>
           int (100 * nat_of_digits ip + nat_of_digits fp) = \<lfloor>\<bar>x\<bar> * 100 + 1 / 2\<rfloor>"
proof -
  let ?n = "nat \<lfloor>\<bar>x\<bar> * 100 + 1 / 2\<rfloor>"
  let ?m = "padStart 3 (CHR ''0'') (toString ?n)"
  let ?ip = "take (length ?m - 2) ?m"
  let ?fp = "drop (length ?m - 2) ?m"
  have len: "3 \<le> length ?m" by (simp add: length_padStart)
  have digs: "list_all is_digit ?m" by (simp add: padStart_digits toString_digits)
  have val: "nat_of_digits ?m = ?n" by (simp add: nat_of_digits_padStart nat_of_digits_toString)
  from len have fp_len: "length ?fp = 2" by simp
  from len have "0 < length ?ip" by simp
  then have ip_ne: "?ip \<noteq> []" by (rule length_greater_0_conv [THEN iffD1])
  from digs have d1: "list_all is_digit ?ip" and d2: "list_all is_digit ?fp"
    by (auto simp: list_all_iff dest: in_set_takeD in_set_dropD)
  have "nat_of_digits (?ip @ ?fp) = nat_of_digits ?ip * 10 ^ length ?fp + nat_of_digits ?fp"
    by (rule nat_of_digits_append)
  then have "nat_of_digits ?m = nat_of_digits ?ip * 100 + nat_of_digits ?fp"
    by (simp only: fp_len append_take_drop_id) simp
  with val have "100 * nat_of_digits ?ip + nat_of_digits ?fp = ?n" by (simp only: mult.commute)
  moreover have "0 \<le> \<lfloor>\<bar>x\<bar> * 100 + 1 / 2\<rfloor>" by simp
  ultimately have v: "int (100 * nat_of_digits ?ip + nat_of_digits ?fp) = \<lfloor>\<bar>x\<bar> * 100 + 1 / 2\<rfloor>"
    by (simp only: int_nat_eq if_True)
  from toFixed_2_unfold [OF assms] ip_ne d1 d2 fp_len v show ?thesis
    by (intro exI [of _ ?ip] exI [of _ ?fp] conjI)
qed

section \<open>Evaluating the number functions on numerals\<close>

lemma bitlen_numeral_eval:
  "bitlen 1 = 1"
  "bitlen (numeral (Num.Bit0 n)) = bitlen (numeral n) + 1"
  "bitlen (numeral (Num.Bit1 n)) = bitlen (numeral n) + 1"
  by (subst compute_bitlen; simp)+

lemma floor_rat_numeral:
  "\<lfloor>numeral a / numeral b :: rat\<rfloor> = numeral a div numeral b"
  "\<lfloor>1 / numeral b :: rat\<rfloor> = 1 div numeral b"
  using floor_divide_of_int_eq [of "numeral a" "numeral b", where ?'a = rat]
    floor_divide_of_int_eq [of 1 "numeral b", where ?'a = rat]
  by simp_all

lemma ceiling_rat_numeral:
  "\<lceil>numeral a / numeral b :: rat\<rceil> = - (- numeral a div numeral b)"
  "\<lceil>1 / numeral b :: rat\<rceil> = - (- 1 div numeral b)"
  using ceiling_divide_eq_div [of "numeral a" "numeral b", where ?'a = rat]
    ceiling_divide_eq_div [of 1 "numeral b", where ?'a = rat]
  by simp_all

lemmas fl_eval = fl_def binary_exponent_def bitlen_numeral_eval pow2_def round_half_even_def
  Let_def floor_rat_numeral ceiling_rat_numeral

lemma toString_numeral_eval:
  "toString 0 = ''0''" "toString 1 = ''1''" "toString (Suc 0) = ''1''"
  "toString (numeral n) = (if numeral n < (10::nat) then [digit_char (numeral n)]
      else toString (numeral n div 10) @ [digit_char (numeral n mod 10)])"
  by (subst toString.simps; simp add: digit_char_eval)+

text \<open>The Number that \<^verbatim>\<open>65430 / 60000\<close> evaluates to, and its two-decimal notation.\<close>

lemma fl_65430_minutes: "fl (2181 / 2000) = 2455587696823763 / 2251799813685248"
  by (simp add: fl_eval)

lemma is_double_65430_minutes: "is_double (2455587696823763 / 2251799813685248)"
  by (simp add: is_double_def fl_eval)

lemma toFixed_65430_minutes: "toFixed 2 (2455587696823763 / 2251799813685248) = ''1.09''"
  by (simp add: toFixed_def Let_def floor_rat_numeral toString_numeral_eval digit_char_eval)

section \<open>CSV export: header and rows\<close>

lemma exportToCSV_unfold:
  "exportToCSV toLocaleString sessionLog =
     join [newline]
       (''Date,Time (minutes),Notes'' #
        map (\<lambda>s. [dquote] @ toLocaleString (date s) @ [dquote] @ '','' @
                   [dquote] @ toFixed 2 (timeMinutes s) @ [dquote] @ '','' @
                   [dquote] @ session_notes s @ [dquote]) sessionLog)"
proof -
  have or_empty: "(if session_notes s \<noteq> [] then session_notes s else []) = session_notes s" for s
    by simp
  show ?thesis
    by (simp only: exportToCSV_def Let_def or_empty map_map comp_def list.map join.simps)
      simp
qed

text \<open>
  Claim C2, as the code has it. For the empty log the text is the single header row
  \<^verbatim>\<open>Date,Time (minutes),Notes\<close>, whose fields are not quoted. For every log the text is the
  header row and then, joined by line feeds, one row for each session in the order of the
  log; a row is the date, the minutes and the notes, each between double quotes, with
  commas between them. The minutes are \<^verbatim>\<open>toFixed(2)\<close> of \<^verbatim>\<open>timeMinutes\<close>: for a Number
  below \<open>10^21\<close> in magnitude, an optional minus, digits, a full stop and exactly two
  digits, which read as the multiple of \<open>1/100\<close> nearest to the Number.
\<close>

theorem exportToCSV_header_and_rows:
  "exportToCSV toLocaleString [] = ''Date,Time (minutes),Notes'' \<and>
   exportToCSV toLocaleString sessionLog =
     join [newline]
       (''Date,Time (minutes),Notes'' #
        map (\<lambda>s. [dquote] @ toLocaleString (date s) @ [dquote] @ '','' @
                   [dquote] @ toFixed 2 (timeMinutes s) @ [dquote] @ '','' @
                   [dquote] @ session_notes s @ [dquote]) sessionLog) \<and>
   (\<bar>x\<bar> < 10 ^ 21 \<longrightarrow>
      (\<exists>ip fp. toFixed 2 x = (if x < 0 then ''-'' else []) @ ip @ ''.'' @ fp \<and>
         ip \<noteq> [] \<and> list_all is_digit ip \<and> list_all is_digit fp \<and> length fp = 2 \<and>
         int (100 * nat_of_digits ip + nat_of_digits fp) = \<lfloor>\<bar>x\<bar> * 100 + 1 / 2\<rfloor>))"
proof (intro conjI impI)
  show "exportToCSV toLocaleString [] = ''Date,Time (minutes),Notes''"
    by (simp add: exportToCSV_unfold)
  show "exportToCSV toLocaleString sessionLog =
     join [newline]
       (''Date,Time (minutes),Notes'' #
        map (\<lambda>s. [dquote] @ toLocaleString (date s) @ [dquote] @ '','' @
                   [dquote] @ toFixed 2 (timeMinutes s) @ [dquote] @ '','' @
                   [dquote] @ session_notes s @ [dquote]) sessionLog)"
    by (rule exportToCSV_unfold)
  assume "\<bar>x\<bar> < 10 ^ 21"
  then show "\<exists>ip fp. toFixed 2 x = (if x < 0 then ''-'' else []) @ ip @ ''.'' @ fp \<and>
         ip \<noteq> [] \<and> list_all is_digit ip \<and> list_all is_digit fp \<and> length fp = 2 \<and>
         int (100 * nat_of_digits ip + nat_of_digits fp) = \<lfloor>\<bar>x\<bar> * 100 + 1 / 2\<rfloor>"
    by (rule toFixed_2_parts)
qed

theorem exportToCSV_witness:
  "\<bar>2455587696823763 / 2251799813685248 :: rat\<bar> < 10 ^ 21 \<and>
   (\<exists>ip fp. ''1.09'' = ip @ ''.'' @ fp \<and> length fp = 2 \<and>
      int (100 * nat_of_digits ip + nat_of_digits fp) = 109) \<and>
   exportToCSV (\<lambda>d. d)
     [\<lparr>session_id = 1730641500000, time = 65430,
       timeMinutes = 2455587696823763 / 2251799813685248,
       date = ''2026-11-03T13:45:00.000Z'', session_notes = ''Green tea''\<rparr>] =
     ''Date,Time (minutes),Notes'' @ [newline] @
     [dquote] @ ''2026-11-03T13:45:00.000Z'' @ [dquote] @ '','' @
     [dquote] @ ''1.09'' @ [dquote] @ '','' @ [dquote] @ ''Green tea'' @ [dquote]"
proof -
  let ?x = "2455587696823763 / 2251799813685248 :: rat"
  let ?s = "\<lparr>session_id = 1730641500000, time = 65430, timeMinutes = ?x,
       date = ''2026-11-03T13:45:00.000Z'', session_notes = ''Green tea''\<rparr>"
  note inst = exportToCSV_header_and_rows [of "\<lambda>d. d" "[?s]" ?x]
  have small: "\<bar>?x\<bar> < 10 ^ 21" by simp
  have fl: "\<lfloor>\<bar>?x\<bar> * 100 + 1 / 2\<rfloor> = 109" by (simp add: floor_rat_numeral)
  from inst small obtain ip fp where
    "toFixed 2 ?x = (if ?x < 0 then ''-'' else []) @ ip @ ''.'' @ fp" "length fp = 2"
    "int (100 * nat_of_digits ip + nat_of_digits fp) = \<lfloor>\<bar>?x\<bar> * 100 + 1 / 2\<rfloor>"
    by (elim conjE impE exE)
  then have "''1.09'' = ip @ ''.'' @ fp \<and> length fp = 2 \<and>
      int (100 * nat_of_digits ip + nat_of_digits fp) = 109"
    by (simp only: fl toFixed_65430_minutes) simp
  then have parts: "\<exists>ip fp. ''1.09'' = ip @ ''.'' @ fp \<and> length fp = 2 \<and>
      int (100 * nat_of_digits ip + nat_of_digits fp) = 109"
    by (intro exI)
  from inst have "exportToCSV (\<lambda>d. d) [?s] =
     join [newline]
       (''Date,Time (minutes),Notes'' #
        map (\<lambda>s. [dquote] @ date s @ [dquote] @ '','' @
                   [dquote] @ toFixed 2 (timeMinutes s) @ [dquote] @ '','' @
                   [dquote] @ session_notes s @ [dquote]) [?s])"
    by (elim conjE)
  then have csv: "exportToCSV (\<lambda>d. d) [?s] =
     ''Date,Time (minutes),Notes'' @ [newline] @
     [dquote] @ ''2026-11-03T13:45:00.000Z'' @ [dquote] @ '','' @
     [dquote] @ ''1.09'' @ [dquote] @ '','' @ [dquote] @ ''Green tea'' @ [dquote]"
    by (simp add: toFixed_65430_minutes)
  from small parts csv show ?thesis by (intro conjI)
qed

theorem exportToCSV_header_not_quoted:
  "exportToCSV (\<lambda>d. d) [] \<noteq>
     [dquote] @ ''Date'' @ [dquote] @ '','' @ [dquote] @ ''Time (minutes)'' @ [dquote] @ '','' @
     [dquote] @ ''Notes'' @ [dquote]"
  by (simp add: exportToCSV_unfold dquote_def)

section \<open>Statistics of the empty log and of one session\<close>

lemma fl_fixed_sum_one:
  assumes "fl t = t"
  shows "fl (foldl (\<lambda>a b. fl (a + b)) 0 [t] / of_nat (length [t])) = t"
  using assms by simp

lemma number_toString_0: "number_toString 0 = ''0''"
  by (simp add: number_toString_def)

text \<open>
  Claim C3, as the code has it. Over the empty log the three statistics are the Number
  \<open>0\<close>, which a view would show as \<open>0\<close>; nothing throws. Over a log of one session, whose
  \<^verbatim>\<open>timeMinutes\<close> is a Number, each of the three is the string \<^verbatim>\<open>timeMinutes.toFixed(2)\<close>:
  for a Number below \<open>10^21\<close> in magnitude that is the nearest multiple of \<open>1/100\<close>, written
  with two decimals.
\<close>

theorem getStats_empty_and_single:
  "getStats [] = \<lparr>average = Num 0, shortest = Num 0, longest = Num 0\<rparr> \<and>
   render (average (getStats [])) = ''0'' \<and>
   render (shortest (getStats [])) = ''0'' \<and>
   render (longest (getStats [])) = ''0'' \<and>
   (is_double (timeMinutes s) \<longrightarrow>
      getStats [s] = \<lparr>average = Str (toFixed 2 (timeMinutes s)),
                      shortest = Str (toFixed 2 (timeMinutes s)),
                      longest = Str (toFixed 2 (timeMinutes s))\<rparr>) \<and>
   (is_double (timeMinutes s) \<and> \<bar>timeMinutes s\<bar> < 10 ^ 21 \<longrightarrow>
      (\<exists>ip fp. render (average (getStats [s])) =
                 (if timeMinutes s < 0 then ''-'' else []) @ ip @ ''.'' @ fp \<and>
         list_all is_digit ip \<and> list_all is_digit fp \<and> length fp = 2 \<and>
         int (100 * nat_of_digits ip + nat_of_digits fp) = \<lfloor>\<bar>timeMinutes s\<bar> * 100 + 1 / 2\<rfloor>))"
proof -
  have empty: "getStats [] = \<lparr>average = Num 0, shortest = Num 0, longest = Num 0\<rparr>"
    by (simp add: getStats_def)
  have r: "render (Num 0) = ''0''"
    by (simp add: render_def number_toString_0)
  have single: "getStats [s] = \<lparr>average = Str (toFixed 2 (timeMinutes s)),
                      shortest = Str (toFixed 2 (timeMinutes s)),
                      longest = Str (toFixed 2 (timeMinutes s))\<rparr>"
    if "is_double (timeMinutes s)"
  proof -
    from that have "fl (timeMinutes s) = timeMinutes s" by (simp add: is_double_def)
    then show ?thesis by (simp add: getStats_def Let_def)
  qed
  have shown: "\<exists>ip fp. render (average (getStats [s])) =
                 (if timeMinutes s < 0 then ''-'' else []) @ ip @ ''.'' @ fp \<and>
         list_all is_digit ip \<and> list_all is_digit fp \<and> length fp = 2 \<and>
         int (100 * nat_of_digits ip + nat_of_digits fp) = \<lfloor>\<bar>timeMinutes s\<bar> * 100 + 1 / 2\<rfloor>"
    if "is_double (timeMinutes s) \<and> \<bar>timeMinutes s\<bar> < 10 ^ 21"
  proof -
    from that have d: "is_double (timeMinutes s)" and b: "\<bar>timeMinutes s\<bar> < 10 ^ 21"
      by simp_all
    from single [OF d] have re: "render (average (getStats [s])) = toFixed 2 (timeMinutes s)"
      by (simp add: render_def)
    from toFixed_2_parts [OF b] obtain ip fp where
      "toFixed 2 (timeMinutes s) = (if timeMinutes s < 0 then ''-'' else []) @ ip @ ''.'' @ fp"
      "list_all is_digit ip" "list_all is_digit fp" "length fp = 2"
      "int (100 * nat_of_digits ip + nat_of_digits fp) = \<lfloor>\<bar>timeMinutes s\<bar> * 100 + 1 / 2\<rfloor>"
      by (elim exE conjE)
    then show ?thesis
      unfolding re by (intro exI [of _ ip] exI [of _ fp] conjI)
  qed
  from empty r single shown show ?thesis by simp
qed

theorem getStats_witness:
  "is_double (2455587696823763 / 2251799813685248) \<and>
   getStats [\<lparr>session_id = 1730641500000, time = 65430,
       timeMinutes = 2455587696823763 / 2251799813685248,
       date = ''2026-11-03T13:45:00.000Z'', session_notes = ''Green tea''\<rparr>] =
     \<lparr>average = Str ''1.09'', shortest = Str ''1.09'', longest = Str ''1.09''\<rparr>"
proof -
  let ?s = "\<lparr>session_id = 1730641500000, time = 65430,
       timeMinutes = 2455587696823763 / 2251799813685248,
       date = ''2026-11-03T13:45:00.000Z'', session_notes = ''Green tea''\<rparr>"
  have d: "is_double (timeMinutes ?s)" by (simp add: is_double_65430_minutes)
  from getStats_empty_and_single [of ?s]
  have "is_double (timeMinutes ?s) \<longrightarrow>
      getStats [?s] = \<lparr>average = Str (toFixed 2 (timeMinutes ?s)),
                      shortest = Str (toFixed 2 (timeMinutes ?s)),
                      longest = Str (toFixed 2 (timeMinutes ?s))\<rparr>"
    by (elim conjE)
  with d have "getStats [?s] = \<lparr>average = Str (toFixed 2 (timeMinutes ?s)),
                      shortest = Str (toFixed 2 (timeMinutes ?s)),
                      longest = Str (toFixed 2 (timeMinutes ?s))\<rparr>"
    by (rule rev_mp)
  then show ?thesis
    by (simp add: is_double_65430_minutes toFixed_65430_minutes)
qed

theorem getStats_empty_not_two_decimals:
  "render (average (getStats [])) \<noteq> ''0.00''"
  by (simp add: getStats_def render_def number_toString_0)

section \<open>Loading the sessions\<close>

lemma JSON_parse_truncated: "JSON_parse ''[{'' = Malformed"
  by (simp add: JSON_parse_def eval_nat_numeral skip_ws_def is_ws_def dquote_def)

lemma load_effect_no_data:
  assumes "getItem ''teaSessions'' storage = None \<or> getItem ''teaSessions'' storage = Some []"
  shows "load_effect storage st = Returns st"
  using assms by (auto simp: load_effect_def)

lemma load_effect_malformed:
  assumes "getItem ''teaSessions'' storage = Some saved" and "saved \<noteq> []"
    and "JSON_parse saved = Malformed"
  shows "load_effect storage st = Throws SyntaxError"
  using assms by (simp add: load_effect_def)

text \<open>
  Claim C1, as the code has it. When nothing is stored under \<^verbatim>\<open>teaSessions\<close>, or the empty
  string is, the load effect leaves the state as it is and mounting ends with the empty
  log and the storage untouched. When the stored text is not empty and is not JSON, the
  \<^verbatim>\<open>SyntaxError\<close> of \<^verbatim>\<open>JSON.parse\<close> leaves the load effect, and mounting, uncaught.
\<close>

theorem load_effect_cases:
  "(getItem ''teaSessions'' storage = None \<or> getItem ''teaSessions'' storage = Some [] \<longrightarrow>
      load_effect storage st = Returns st \<and> mount storage = Returns (initial, storage)) \<and>
   (getItem ''teaSessions'' storage = Some saved \<and> saved \<noteq> [] \<and> JSON_parse saved = Malformed \<longrightarrow>
      load_effect storage st = Throws SyntaxError \<and> mount storage = Throws SyntaxError)"
proof (intro conjI impI)
  assume h: "getItem ''teaSessions'' storage = None \<or> getItem ''teaSessions'' storage = Some []"
  then show "load_effect storage st = Returns st" by (rule load_effect_no_data)
  from h have "load_effect storage initial = Returns initial" by (rule load_effect_no_data)
  then show "mount storage = Returns (initial, storage)"
    by (simp add: mount_def persist_effect_def initial_def)
next
  assume h: "getItem ''teaSessions'' storage = Some saved \<and> saved \<noteq> [] \<and> JSON_parse saved = Malformed"
  then show "load_effect storage st = Throws SyntaxError"
    using load_effect_malformed by blast
  from h have "load_effect storage initial = Throws SyntaxError"
    using load_effect_malformed by blast
  then show "mount storage = Throws SyntaxError"
    by (simp add: mount_def)
qed

theorem load_effect_witness:
  "getItem ''teaSessions'' \<lparr>items = Map.empty, setItem_calls = []\<rparr> = None \<and>
   mount \<lparr>items = Map.empty, setItem_calls = []\<rparr> =
     Returns (initial, \<lparr>items = Map.empty, setItem_calls = []\<rparr>) \<and>
   getItem ''teaSessions'' \<lparr>items = [''teaSessions'' \<mapsto> ''[{''], setItem_calls = []\<rparr> =
     Some ''[{'' \<and>
   JSON_parse ''[{'' = Malformed \<and>
   mount \<lparr>items = [''teaSessions'' \<mapsto> ''[{''], setItem_calls = []\<rparr> = Throws SyntaxError"
proof -
  let ?empty = "\<lparr>items = Map.empty, setItem_calls = []\<rparr>"
  let ?bad = "\<lparr>items = [''teaSessions'' \<mapsto> ''[{''], setItem_calls = []\<rparr>"
  have a: "getItem ''teaSessions'' ?empty = None" by (simp add: getItem_def)
  have b: "getItem ''teaSessions'' ?bad = Some ''[{''" by (simp add: getItem_def)
  have c: "''[{'' \<noteq> []" by simp
  note m = JSON_parse_truncated
  from load_effect_cases [where storage = ?empty and st = initial] a
  have 1: "mount ?empty = Returns (initial, ?empty)" by blast
  from load_effect_cases [where storage = ?bad and saved = "''[{''" and st = initial] b c m
  have 2: "mount ?bad = Throws SyntaxError" by blast
  from a 1 b m 2 show ?thesis by (intro conjI)
qed

theorem load_effect_throws_on_malformed:
  "load_effect \<lparr>items = [''teaSessions'' \<mapsto> ''[{''], setItem_calls = []\<rparr> initial =
     Throws SyntaxError \<and>
   load_effect \<lparr>items = [''teaSessions'' \<mapsto> ''[{''], setItem_calls = []\<rparr> initial \<noteq>
     Returns initial \<and>
   mount \<lparr>items = [''teaSessions'' \<mapsto> ''[{''], setItem_calls = []\<rparr> = Throws SyntaxError"
  by (simp add: mount_def load_effect_def getItem_def JSON_parse_truncated)

section \<open>CSV export: lines and fields\<close>

lemma split_nonempty: "split sep s \<noteq> []"
  by (induction s) (auto split: list.splits)

lemma split_no_sep: "sep \<notin> set l \<Longrightarrow> split sep l = [l]"
  by (induction l) auto

lemma split_line: "sep \<notin> set l \<Longrightarrow> split sep (l @ sep # rest) = l # split sep rest"
  by (induction l) auto

lemma join_Cons: "ls \<noteq> [] \<Longrightarrow> join sep (x # ls) = x @ sep @ join sep ls"
  by (cases ls) simp_all

lemma split_join:
  assumes "ls \<noteq> []" and "\<forall>l \<in> set ls. sep \<notin> set l"
  shows "split sep (join [sep] ls) = ls"
  using assms
proof (induction ls)
  case Nil
  then show ?case by simp
next
  case (Cons x ls)
  show ?case
  proof (cases "ls = []")
    case True
    with Cons.prems show ?thesis by (simp add: split_no_sep)
  next
    case False
    with Cons have "split sep (join [sep] ls) = ls" by simp
    with False Cons.prems show ?thesis by (simp add: join_Cons split_line)
  qed
qed

lemma scan_field:
  "dquote \<notin> set f \<Longrightarrow>
   scan_fields Field_end done cur (f @ dquote # rest) =
     scan_fields Comma_or_end (done @ [cur @ f]) [] rest"
  by (induction f arbitrary: cur) auto

lemma quoted_fields_three:
  assumes "dquote \<notin> set a" "dquote \<notin> set b" "dquote \<notin> set c"
  shows "quoted_fields ([dquote] @ a @ [dquote] @ '','' @ [dquote] @ b @ [dquote] @ '','' @
           [dquote] @ c @ [dquote]) = Some [a, b, c]"
  using assms by (simp add: quoted_fields_def scan_field)


subsection \<open>The characters of a Number's notation\<close>

lemma is_digit_numeric: "is_digit c \<Longrightarrow> is_numeric_char c"
  by (simp add: is_numeric_char_def)

lemma digits_numeric: "list_all is_digit s \<Longrightarrow> list_all is_numeric_char s"
  by (simp add: list_all_iff is_digit_numeric)

lemma toString_numeric: "list_all is_numeric_char (toString n)"
  by (rule digits_numeric) (rule toString_digits)

lemma zero_numeric: "is_numeric_char (CHR ''0'')"
  by (simp add: is_numeric_char_def is_digit_def)

lemma take_numeric: "list_all is_numeric_char s \<Longrightarrow> list_all is_numeric_char (take k s)"
  by (auto simp: list_all_iff dest: in_set_takeD)

lemma drop_numeric: "list_all is_numeric_char s \<Longrightarrow> list_all is_numeric_char (drop k s)"
  by (auto simp: list_all_iff dest: in_set_dropD)

lemma replicate_zero_numeric: "list_all is_numeric_char (replicate k (CHR ''0''))"
  by (simp add: list_all_iff zero_numeric)

lemma decimal_notation_numeric: "list_all is_numeric_char (decimal_notation d)"
proof -
  have p: "is_numeric_char (CHR ''.'')" "is_numeric_char (CHR ''e'')"
    "is_numeric_char (CHR ''+'')" "is_numeric_char (CHR ''-'')"
    by (simp_all add: is_numeric_char_def)
  show ?thesis
    by (simp add: decimal_notation_def Let_def toString_numeric take_numeric drop_numeric
        replicate_zero_numeric zero_numeric p del: replicate.simps)
qed

lemma number_toString_numeric: "list_all is_numeric_char (number_toString x)"
proof -
  have p: "is_numeric_char (CHR ''-'')" by (simp add: is_numeric_char_def)
  show ?thesis
    by (simp add: number_toString_def decimal_notation_numeric zero_numeric p)
qed

lemma toFixed_numeric: "list_all is_numeric_char (toFixed f x)"
proof -
  define a where "a = \<bar>x\<bar>"
  define m where "m = toString (nat \<lfloor>a * 10 ^ f + 1 / 2\<rfloor>)"
  define p where "p = (if f \<noteq> 0 \<and> length m \<le> f
                       then replicate (f + 1 - length m) (CHR ''0'') @ m else m)"
  have c: "is_numeric_char (CHR ''.'')" "is_numeric_char (CHR ''-'')"
    by (simp_all add: is_numeric_char_def)
  have pn: "list_all is_numeric_char p"
    unfolding p_def m_def by (simp add: toString_numeric replicate_zero_numeric del: replicate.simps)
  have tn: "list_all is_numeric_char (take (length p - f) p)"
    using pn by (rule take_numeric)
  have dn: "list_all is_numeric_char (drop (length p - f) p)"
    using pn by (rule drop_numeric)
  have "toFixed f x =
      (if x < 0 then ''-'' else []) @
      (if 10 ^ 21 \<le> a then number_toString a
       else if f \<noteq> 0 then take (length p - f) p @ ''.'' @ drop (length p - f) p else p)"
    unfolding toFixed_def Let_def a_def [symmetric] m_def [symmetric] p_def [symmetric]
    by simp
  then show ?thesis
    by (simp add: number_toString_numeric pn tn dn c)
qed

lemma numeric_not_quote_or_newline:
  "list_all is_numeric_char s \<Longrightarrow> dquote \<notin> set s \<and> newline \<notin> set s"
  by (auto simp: list_all_iff is_numeric_char_def is_digit_def dquote_def newline_def)

lemma toFixed_plain: "dquote \<notin> set (toFixed f x)" "newline \<notin> set (toFixed f x)"
  using numeric_not_quote_or_newline [OF toFixed_numeric [of f x]] by simp_all


subsection \<open>The lines of the exported text\<close>

lemma exportToCSV_rows:
  "exportToCSV toLocaleString sessionLog =
     join [newline] (''Date,Time (minutes),Notes'' # map (csv_row toLocaleString) sessionLog)"
  by (simp add: exportToCSV_unfold csv_row_def [abs_def])

lemma csv_row_no_newline:
  assumes "newline \<notin> set (session_notes s)" and "newline \<notin> set (toLocaleString (date s))"
  shows "newline \<notin> set (csv_row toLocaleString s)"
  using assms toFixed_plain(2) [of 2 "timeMinutes s"]
  by (simp add: csv_row_def newline_def dquote_def)

lemma csv_row_fields:
  assumes "dquote \<notin> set (session_notes s)" and "dquote \<notin> set (toLocaleString (date s))"
  shows "quoted_fields (csv_row toLocaleString s) =
           Some [toLocaleString (date s), toFixed 2 (timeMinutes s), session_notes s]"
  unfolding csv_row_def using assms toFixed_plain(1) [of 2 "timeMinutes s"]
  by (rule_tac quoted_fields_three)

lemma exportToCSV_lines:
  assumes "\<forall>s \<in> set sessionLog. newline \<notin> set (session_notes s)"
    and "\<forall>s \<in> set sessionLog. newline \<notin> set (toLocaleString (date s))"
  shows "split newline (exportToCSV toLocaleString sessionLog) =
           ''Date,Time (minutes),Notes'' # map (csv_row toLocaleString) sessionLog"
proof -
  have "newline \<notin> set ''Date,Time (minutes),Notes''"
    by (simp add: newline_def)
  moreover from assms
  have "\<forall>l \<in> set (map (csv_row toLocaleString) sessionLog). newline \<notin> set l"
    by (auto simp: csv_row_no_newline)
  ultimately
  have "\<forall>l \<in> set (''Date,Time (minutes),Notes'' # map (csv_row toLocaleString) sessionLog).
          newline \<notin> set l"
    by simp
  then show ?thesis
    unfolding exportToCSV_rows by (intro split_join) simp_all
qed


text \<open>
  Claim C10. Take a log in which no session's notes contain a line feed or a double
  quote, in a browser whose \<^verbatim>\<open>toLocaleString\<close> writes the dates of the log without line
  feed and double quote. Split at the line feeds, the exported text has one line more
  than the log has sessions: the header, and for each session, in order, a line that reads
  as exactly three fields between double quotes, separated by commas: the date, the
  minutes and the notes. A comma inside the notes is part of the field.
\<close>

theorem exportToCSV_lines_and_fields:
  assumes "\<forall>s \<in> set sessionLog.
             newline \<notin> set (session_notes s) \<and> dquote \<notin> set (session_notes s)"
    and "\<forall>s \<in> set sessionLog.
             newline \<notin> set (toLocaleString (date s)) \<and> dquote \<notin> set (toLocaleString (date s))"
  shows "length (split newline (exportToCSV toLocaleString sessionLog)) = 1 + length sessionLog \<and>
         split newline (exportToCSV toLocaleString sessionLog) ! 0 = ''Date,Time (minutes),Notes'' \<and>
         (\<forall>i < length sessionLog.
            quoted_fields (split newline (exportToCSV toLocaleString sessionLog) ! Suc i) =
              Some [toLocaleString (date (sessionLog ! i)),
                    toFixed 2 (timeMinutes (sessionLog ! i)),
                    session_notes (sessionLog ! i)])"
proof -
  from assms have
    lines: "split newline (exportToCSV toLocaleString sessionLog) =
              ''Date,Time (minutes),Notes'' # map (csv_row toLocaleString) sessionLog"
    by (intro exportToCSV_lines) simp_all
  have "quoted_fields (csv_row toLocaleString (sessionLog ! i)) =
          Some [toLocaleString (date (sessionLog ! i)),
                toFixed 2 (timeMinutes (sessionLog ! i)),
                session_notes (sessionLog ! i)]"
    if "i < length sessionLog" for i
  proof -
    from that have "sessionLog ! i \<in> set sessionLog" by simp
    with assms show ?thesis by (intro csv_row_fields) simp_all
  qed
  then show ?thesis by (simp add: lines)
qed

theorem exportToCSV_lines_witness:
  "newline \<notin> set ''Green, tea'' \<and> dquote \<notin> set ''Green, tea'' \<and>
   newline \<notin> set ''2026-11-03T13:45:00.000Z'' \<and> dquote \<notin> set ''2026-11-03T13:45:00.000Z'' \<and>
   length (split newline (exportToCSV (\<lambda>d. d)
     [\<lparr>session_id = 1730641500000, time = 65430,
       timeMinutes = 2455587696823763 / 2251799813685248,
       date = ''2026-11-03T13:45:00.000Z'', session_notes = ''Green, tea''\<rparr>])) = 2 \<and>
   quoted_fields (split newline (exportToCSV (\<lambda>d. d)
     [\<lparr>session_id = 1730641500000, time = 65430,
       timeMinutes = 2455587696823763 / 2251799813685248,
       date = ''2026-11-03T13:45:00.000Z'', session_notes = ''Green, tea''\<rparr>]) ! 1) =
     Some [''2026-11-03T13:45:00.000Z'', ''1.09'', ''Green, tea'']"
proof -
  let ?s = "\<lparr>session_id = 1730641500000, time = 65430,
       timeMinutes = 2455587696823763 / 2251799813685248,
       date = ''2026-11-03T13:45:00.000Z'', session_notes = ''Green, tea''\<rparr>"
  have n: "\<forall>s \<in> set [?s]. newline \<notin> set (session_notes s) \<and> dquote \<notin> set (session_notes s)"
    by (simp add: newline_def dquote_def)
  have d: "\<forall>s \<in> set [?s]. newline \<notin> set ((\<lambda>d. d) (date s)) \<and> dquote \<notin> set ((\<lambda>d. d) (date s))"
    by (simp add: newline_def dquote_def)
  note inst = exportToCSV_lines_and_fields [OF n d]
  from inst have len: "length (split newline (exportToCSV (\<lambda>d. d) [?s])) = 2"
    by simp
  from inst have "\<forall>i < length [?s].
      quoted_fields (split newline (exportToCSV (\<lambda>d. d) [?s]) ! Suc i) =
        Some [date ([?s] ! i), toFixed 2 (timeMinutes ([?s] ! i)), session_notes ([?s] ! i)]"
    by (elim conjE)
  then have "quoted_fields (split newline (exportToCSV (\<lambda>d. d) [?s]) ! Suc 0) =
        Some [date ([?s] ! 0), toFixed 2 (timeMinutes ([?s] ! 0)), session_notes ([?s] ! 0)]"
    by simp
  then have row: "quoted_fields (split newline (exportToCSV (\<lambda>d. d) [?s]) ! 1) =
      Some [''2026-11-03T13:45:00.000Z'', ''1.09'', ''Green, tea'']"
    by (simp add: toFixed_65430_minutes)
  have hyp: "newline \<notin> set ''Green, tea''" "dquote \<notin> set ''Green, tea''"
    "newline \<notin> set ''2026-11-03T13:45:00.000Z''" "dquote \<notin> set ''2026-11-03T13:45:00.000Z''"
    by (simp_all add: newline_def dquote_def)
  from hyp len row show ?thesis by (intro conjI)
qed

section \<open>The rounding error of a Number\<close>

lemma pow2_pos: "0 < pow2 e"
  by (simp add: pow2_def)

lemma pow2_Suc: "pow2 (e + 1) = 2 * pow2 e"
proof (cases "0 \<le> e")
  case True
  then show ?thesis by (simp add: pow2_def nat_add_distrib)
next
  case False
  then have "nat (- e) = Suc (nat (- e - 1))" by simp
  then have "(2::rat) ^ nat (- e) = 2 * 2 ^ nat (- e - 1)" by simp
  with False show ?thesis by (simp add: pow2_def)
qed

lemma pow2_mono: "a \<le> b \<Longrightarrow> pow2 a \<le> pow2 b"
proof -
  assume "a \<le> b"
  then obtain k where b: "b = a + int k" by (metis zle_iff_zadd)
  have "pow2 a \<le> pow2 (a + int k)"
  proof (induction k)
    case 0
    then show ?case by simp
  next
    case (Suc k)
    have "a + int (Suc k) = (a + int k) + 1" by simp
    then have "pow2 (a + int (Suc k)) = 2 * pow2 (a + int k)"
      by (simp only: pow2_Suc)
    with Suc pow2_pos [of "a + int k"] show ?case by simp
  qed
  with b show ?thesis by simp
qed

lemma round_half_even_error: "\<bar>of_int (round_half_even q) - q\<bar> \<le> 1 / 2"
proof -
  have "of_int \<lfloor>q\<rfloor> \<le> q" and "q < of_int \<lfloor>q\<rfloor> + 1" by linarith+
  then show ?thesis
    unfolding round_half_even_def Let_def
    by (simp only: abs_if of_int_add of_int_1 split: if_split) linarith
qed

lemma binary_exponent_lower:
  assumes "0 < x"
  shows "pow2 (binary_exponent x) \<le> x"
proof (cases "1 \<le> x")
  case True
  then have pos: "0 < \<lfloor>x\<rfloor>" by simp
  from bitlen_bounds [OF pos] have "2 ^ nat (bitlen \<lfloor>x\<rfloor> - 1) \<le> \<lfloor>x\<rfloor>" by simp
  then have "(of_int (2 ^ nat (bitlen \<lfloor>x\<rfloor> - 1)) :: rat) \<le> of_int \<lfloor>x\<rfloor>"
    by (simp only: of_int_le_iff)
  also have "\<dots> \<le> x" by simp
  finally have "(2::rat) ^ nat (bitlen \<lfloor>x\<rfloor> - 1) \<le> x" by simp
  moreover from pos have "1 \<le> bitlen \<lfloor>x\<rfloor>" by (simp add: bitlen_alt_def)
  ultimately show ?thesis using True by (simp add: binary_exponent_def pow2_def)
next
  case False
  let ?m = "\<lceil>1 / x\<rceil>"
  let ?b = "bitlen (?m - 1)"
  from False assms have "1 < 1 / x" by simp
  then have m2: "2 \<le> ?m" by (simp add: le_ceiling_iff)
  then have pos: "0 < ?m - 1" by simp
  from bitlen_bounds [OF pos] have "?m - 1 < 2 ^ nat ?b" by simp
  then have "?m \<le> 2 ^ nat ?b" by simp
  then have "(of_int ?m :: rat) \<le> of_int (2 ^ nat ?b)" by (simp only: of_int_le_iff)
  then have "(of_int ?m :: rat) \<le> 2 ^ nat ?b" by simp
  moreover have "1 / x \<le> of_int ?m" by simp
  ultimately have "1 / x \<le> 2 ^ nat ?b" by linarith
  with assms have "1 \<le> x * 2 ^ nat ?b" by (simp add: field_simps)
  then have "1 / 2 ^ nat ?b \<le> x" by (simp add: field_simps)
  moreover have "0 \<le> ?b" by (simp add: bitlen_nonneg)
  ultimately show ?thesis using False
    by (auto simp: binary_exponent_def pow2_def)
qed

lemma binary_exponent_upper:
  assumes "0 < x"
  shows "x < pow2 (binary_exponent x + 1)"
proof (cases "1 \<le> x")
  case True
  then have pos: "0 < \<lfloor>x\<rfloor>" by simp
  from bitlen_bounds [OF pos] have "\<lfloor>x\<rfloor> < 2 ^ nat (bitlen \<lfloor>x\<rfloor>)" by simp
  then have "\<lfloor>x\<rfloor> + 1 \<le> 2 ^ nat (bitlen \<lfloor>x\<rfloor>)" by simp
  then have "(of_int (\<lfloor>x\<rfloor> + 1) :: rat) \<le> of_int (2 ^ nat (bitlen \<lfloor>x\<rfloor>))"
    by (simp only: of_int_le_iff)
  moreover have "x < of_int (\<lfloor>x\<rfloor> + 1)" by linarith
  ultimately have "x < 2 ^ nat (bitlen \<lfloor>x\<rfloor>)" by simp
  moreover from pos have "1 \<le> bitlen \<lfloor>x\<rfloor>" by (simp add: bitlen_alt_def)
  ultimately show ?thesis using True by (simp add: binary_exponent_def pow2_def)
next
  case False
  let ?m = "\<lceil>1 / x\<rceil>"
  let ?b = "bitlen (?m - 1)"
  from False assms have "1 < 1 / x" by simp
  then have m2: "2 \<le> ?m" by (simp add: le_ceiling_iff)
  then have pos: "0 < ?m - 1" by simp
  then have b1: "1 \<le> ?b" by (simp add: bitlen_alt_def)
  from bitlen_bounds [OF pos] have "2 ^ nat (?b - 1) \<le> ?m - 1" by simp
  then have "(of_int (2 ^ nat (?b - 1)) :: rat) \<le> of_int (?m - 1)" by (simp only: of_int_le_iff)
  moreover have "of_int (?m - 1) < 1 / x" by (simp add: ceiling_correct)
  ultimately have "2 ^ nat (?b - 1) < 1 / x" by simp
  with assms have "x * 2 ^ nat (?b - 1) < 1" by (simp add: field_simps)
  then have "x < 1 / 2 ^ nat (?b - 1)" by (simp add: field_simps)
  moreover from b1 have "pow2 (- ?b + 1) = 1 / 2 ^ nat (?b - 1)"
    by (auto simp: pow2_def)
  ultimately show ?thesis using False by (simp add: binary_exponent_def)
qed


lemma pow2_add_nat: "pow2 (e + int k) = 2 ^ k * pow2 e"
proof (induction k)
  case 0
  then show ?case by simp
next
  case (Suc k)
  have "e + int (Suc k) = (e + int k) + 1" by simp
  then have "pow2 (e + int (Suc k)) = 2 * pow2 (e + int k)" by (simp only: pow2_Suc)
  with Suc show ?case by simp
qed

lemma fl_error:
  assumes "0 < x" and "pow2 (- 1022) \<le> x"
  shows "\<bar>fl x - x\<bar> * 2 ^ 53 \<le> x"
proof -
  define e where "e = binary_exponent x"
  define ulp where "ulp = pow2 (e - 52)"
  have e_low: "- 1022 \<le> e"
  proof (rule ccontr)
    assume "\<not> - 1022 \<le> e"
    then have "e + 1 \<le> - 1022" by simp
    then have "pow2 (e + 1) \<le> pow2 (- 1022)" by (rule pow2_mono)
    moreover from assms(1) have "x < pow2 (e + 1)"
      unfolding e_def by (rule binary_exponent_upper)
    ultimately show False using assms(2) by simp
  qed
  have ulp_pos: "0 < ulp" unfolding ulp_def by (rule pow2_pos)
  have "pow2 ((e - 52) + int 52) = 2 ^ 52 * pow2 (e - 52)" by (rule pow2_add_nat)
  then have ulp_e: "pow2 e = 2 ^ 52 * ulp" by (simp add: ulp_def)
  from assms(1) have "pow2 e \<le> x" unfolding e_def by (rule binary_exponent_lower)
  with ulp_e have low: "2 ^ 52 * ulp \<le> x" by simp
  from assms(1) e_low have flx: "fl x = of_int (round_half_even (x / ulp)) * ulp"
    by (simp add: fl_def Let_def e_def ulp_def max_def)
  from ulp_pos have "fl x - x = (of_int (round_half_even (x / ulp)) - x / ulp) * ulp"
    by (simp add: flx field_simps)
  then have "\<bar>fl x - x\<bar> = \<bar>of_int (round_half_even (x / ulp)) - x / ulp\<bar> * ulp"
    using ulp_pos by (simp add: abs_mult)
  also have "\<dots> \<le> 1 / 2 * ulp"
    using round_half_even_error [of "x / ulp"] ulp_pos by (intro mult_right_mono) simp_all
  finally have "\<bar>fl x - x\<bar> * 2 ^ 53 \<le> 1 / 2 * ulp * 2 ^ 53" by simp
  also have "\<dots> = 2 ^ 52 * ulp" by simp
  finally show ?thesis using low by simp
qed

lemma fl_minutes_error:
  assumes "0 < t"
  shows "\<bar>fl (of_nat t / 60000) - of_nat t / 60000\<bar> * 2 ^ 53 \<le> of_nat t / 60000"
proof (rule fl_error)
  from assms show "0 < (of_nat t :: rat) / 60000" by simp
  have "pow2 (- 1022) \<le> pow2 (- 16)" by (rule pow2_mono) simp
  also have "\<dots> \<le> 1 / 60000" by (simp add: pow2_def)
  also from assms have "\<dots> \<le> of_nat t / 60000" by (simp add: divide_right_mono)
  finally show "pow2 (- 1022) \<le> of_nat t / 60000" .
qed


section \<open>The minutes of a saved session\<close>

lemma run_fst: "fst (run evs c) = foldl (\<lambda>st ev. handle ev st) (fst c) evs"
  by (induction evs arbitrary: c) (simp_all add: step_fst)

lemma handleSave_appends:
  assumes "0 < st_time st"
  shows "sessions (handleSave now d st) =
           sessions st @
           [\<lparr>session_id = now, time = of_nat (st_time st),
             timeMinutes = fl (of_nat (st_time st) / 60000), date = d,
             session_notes = st_notes st\<rparr>]"
  using assms by (simp add: handleSave_def handleReset_def Let_def)

lemma handle_appends:
  "\<exists>new. sessions (handle ev st) = sessions st @ new \<and>
     (\<forall>s \<in> set new. \<exists>t. 0 < t \<and> time s = of_nat t \<and> timeMinutes s = fl (time s / 60000))"
proof (cases ev)
  case (Save now d)
  show ?thesis
  proof (cases "0 < st_time st")
    case True
    let ?s = "\<lparr>session_id = now, time = of_nat (st_time st),
             timeMinutes = fl (of_nat (st_time st) / 60000), date = d,
             session_notes = st_notes st\<rparr>"
    from True have "sessions (handle ev st) = sessions st @ [?s]"
      by (simp add: Save handleSave_appends)
    moreover from True
    have "\<forall>s \<in> set [?s]. \<exists>t. 0 < t \<and> time s = of_nat t \<and> timeMinutes s = fl (time s / 60000)"
      by auto
    ultimately show ?thesis by blast
  next
    case False
    then have "sessions (handle ev st) = sessions st @ []"
      by (simp add: Save handleSave_def)
    then show ?thesis by (intro exI [of _ "[]"]) simp
  qed
qed (simp_all add: tick_def handleStartStop_def handleReset_def)

lemma run_appends:
  "\<exists>new. sessions (fst (run evs c)) = sessions (fst c) @ new \<and>
     (\<forall>s \<in> set new. \<exists>t. 0 < t \<and> time s = of_nat t \<and> timeMinutes s = fl (time s / 60000))"
proof (induction evs arbitrary: c)
  case Nil
  show ?case by (intro exI [of _ "[]"]) simp
next
  case (Cons ev evs)
  from handle_appends [of ev "fst c"] obtain n1 where
    1: "sessions (fst (step ev c)) = sessions (fst c) @ n1"
    and p1: "\<forall>s \<in> set n1. \<exists>t. 0 < t \<and> time s = of_nat t \<and> timeMinutes s = fl (time s / 60000)"
    by (auto simp: step_fst)
  from Cons [of "step ev c"] obtain n2 where
    2: "sessions (fst (run evs (step ev c))) = sessions (fst (step ev c)) @ n2"
    and p2: "\<forall>s \<in> set n2. \<exists>t. 0 < t \<and> time s = of_nat t \<and> timeMinutes s = fl (time s / 60000)"
    by blast
  from 1 2 have "sessions (fst (run (ev # evs) c)) = sessions (fst c) @ (n1 @ n2)" by simp
  moreover from p1 p2
  have "\<forall>s \<in> set (n1 @ n2). \<exists>t. 0 < t \<and> time s = of_nat t \<and> timeMinutes s = fl (time s / 60000)"
    by auto
  ultimately show ?case by blast
qed

lemma minutes_close:
  assumes "0 < t" and "time s = of_nat t" and "timeMinutes s = fl (time s / 60000)"
  shows "\<bar>timeMinutes s - time s / 60000\<bar> * 2 ^ 53 \<le> time s / 60000"
    and "time s \<le> 2 ^ 53 \<longrightarrow> \<bar>timeMinutes s - time s / 60000\<bar> < 1 / 200"
proof -
  from fl_minutes_error [OF assms(1)] assms(2,3)
  show rel: "\<bar>timeMinutes s - time s / 60000\<bar> * 2 ^ 53 \<le> time s / 60000" by simp
  show "time s \<le> 2 ^ 53 \<longrightarrow> \<bar>timeMinutes s - time s / 60000\<bar> < 1 / 200"
  proof
    assume "time s \<le> 2 ^ 53"
    then have "time s / 60000 \<le> 2 ^ 53 / 60000" by (simp add: divide_right_mono)
    with rel have "\<bar>timeMinutes s - time s / 60000\<bar> * 2 ^ 53 \<le> 2 ^ 53 / 60000" by linarith
    then have "\<bar>timeMinutes s - time s / 60000\<bar> \<le> 1 / 60000" by simp
    then show "\<bar>timeMinutes s - time s / 60000\<bar> < 1 / 200" by simp
  qed
qed

text \<open>
  Claim C5. Over any sequence of events, from any state, the log ends as the log it
  started with followed by the sessions saved on the way, and every one of these has a
  positive whole number of milliseconds as \<^verbatim>\<open>time\<close> and has \<^verbatim>\<open>timeMinutes\<close> equal to the
  Number \<^verbatim>\<open>time / 60000\<close>, the binary64 value nearest to the exact quotient. It differs
  from the exact quotient by at most the quotient divided by \<open>2^53\<close>, which for a \<^verbatim>\<open>time\<close> up
  to \<open>2^53\<close> is less than the half unit of a display with two decimals.
\<close>

theorem saved_sessions_minutes:
  "\<exists>new. sessions (fst (run evs c)) = sessions (fst c) @ new \<and>
     (\<forall>s \<in> set new.
        (\<exists>t. 0 < t \<and> time s = of_nat t) \<and>
        timeMinutes s = fl (time s / 60000) \<and>
        \<bar>timeMinutes s - time s / 60000\<bar> * 2 ^ 53 \<le> time s / 60000 \<and>
        (time s \<le> 2 ^ 53 \<longrightarrow> \<bar>timeMinutes s - time s / 60000\<bar> < 1 / 200))"
proof -
  from run_appends [of evs c] obtain new where
    a: "sessions (fst (run evs c)) = sessions (fst c) @ new"
    and p: "\<forall>s \<in> set new. \<exists>t. 0 < t \<and> time s = of_nat t \<and> timeMinutes s = fl (time s / 60000)"
    by blast
  have "(\<exists>t. 0 < t \<and> time s = of_nat t) \<and>
        timeMinutes s = fl (time s / 60000) \<and>
        \<bar>timeMinutes s - time s / 60000\<bar> * 2 ^ 53 \<le> time s / 60000 \<and>
        (time s \<le> 2 ^ 53 \<longrightarrow> \<bar>timeMinutes s - time s / 60000\<bar> < 1 / 200)"
    if "s \<in> set new" for s
  proof -
    from p that obtain t where t: "0 < t" "time s = of_nat t" "timeMinutes s = fl (time s / 60000)"
      by blast
    from minutes_close [OF t] t show ?thesis by blast
  qed
  with a show ?thesis by blast
qed


lemma fl_20_minutes: "fl (1 / 3000) = 6148914691236517 / 18446744073709551616"
  by (simp add: fl_eval)

theorem saved_sessions_minutes_witness:
  "sessions (fst (run [StartStop, Tick, Tick, StartStop,
                       Save 1730641500000 ''2026-11-03T13:45:00.000Z'']
                  (initial, \<lparr>items = Map.empty, setItem_calls = []\<rparr>))) =
     [\<lparr>session_id = 1730641500000, time = 20,
       timeMinutes = 6148914691236517 / 18446744073709551616,
       date = ''2026-11-03T13:45:00.000Z'', session_notes = []\<rparr>] \<and>
   6148914691236517 / 18446744073709551616 = fl (20 / 60000) \<and>
   \<bar>6148914691236517 / 18446744073709551616 - 20 / 60000 :: rat\<bar> < 1 / 200"
proof -
  let ?evs = "[StartStop, Tick, Tick, StartStop, Save 1730641500000 ''2026-11-03T13:45:00.000Z'']"
  let ?c = "(initial, \<lparr>items = Map.empty, setItem_calls = []\<rparr>)"
  let ?s = "\<lparr>session_id = 1730641500000, time = 20,
       timeMinutes = 6148914691236517 / 18446744073709551616,
       date = ''2026-11-03T13:45:00.000Z'', session_notes = []\<rparr>"
  have ran: "sessions (fst (run ?evs ?c)) = [?s]"
    by (simp add: step_fst initial_def handleStartStop_def tick_def handleSave_def handleReset_def
        Let_def fl_20_minutes)
  have start: "sessions (fst ?c) = []" by (simp add: initial_def)
  from saved_sessions_minutes [of ?evs ?c] obtain new where
    a: "sessions (fst (run ?evs ?c)) = sessions (fst ?c) @ new"
    and p: "\<forall>s \<in> set new.
        timeMinutes s = fl (time s / 60000) \<and>
        (time s \<le> 2 ^ 53 \<longrightarrow> \<bar>timeMinutes s - time s / 60000\<bar> < 1 / 200)"
    by blast
  from a ran start have "new = [?s]" by simp
  with p have "timeMinutes ?s = fl (time ?s / 60000)"
    and "time ?s \<le> 2 ^ 53 \<longrightarrow> \<bar>timeMinutes ?s - time ?s / 60000\<bar> < 1 / 200"
    by simp_all
  then have 1: "6148914691236517 / 18446744073709551616 = fl (20 / 60000)"
    and 2: "\<bar>6148914691236517 / 18446744073709551616 - 20 / 60000 :: rat\<bar> < 1 / 200"
    by simp_all
  from ran 1 2 show ?thesis by (intro conjI)
qed

section \<open>Timer display: the arithmetic on whole Numbers\<close>

lemma round_half_even_of_int: "round_half_even (of_int z) = z"
  by (simp add: round_half_even_def Let_def)

lemma bitlen_le_53:
  assumes "0 < i" and "i < 2 ^ 53"
  shows "bitlen i \<le> 53"
proof (rule ccontr)
  assume "\<not> bitlen i \<le> 53"
  then have "53 \<le> nat (bitlen i - 1)" by simp
  then have "(2::int) ^ 53 \<le> 2 ^ nat (bitlen i - 1)"
    by (intro power_increasing) simp_all
  also from bitlen_bounds [OF assms(1)] have "\<dots> \<le> i" by simp
  finally show False using assms(2) by simp
qed

lemma fl_of_nat:
  assumes "n < 2 ^ 53"
  shows "fl (of_nat n) = of_nat n"
proof (cases "n = 0")
  case True
  then show ?thesis by (simp add: fl_def)
next
  case False
  define e where "e = bitlen (int n) - 1"
  define k where "k = nat (52 - e)"
  from False have pos: "0 < int n" by simp
  from assms have "int n < 2 ^ 53"
    by (metis of_nat_less_iff of_nat_numeral of_nat_power)
  with pos have "bitlen (int n) \<le> 53" by (rule bitlen_le_53)
  then have e52: "e \<le> 52" by (simp add: e_def)
  from pos have "1 \<le> bitlen (int n)" by (simp add: bitlen_alt_def)
  then have e0: "0 \<le> e" by (simp add: e_def)
  from False have x1: "1 \<le> (of_nat n :: rat)" by simp
  then have be: "binary_exponent (of_nat n) = e"
    by (simp add: binary_exponent_def e_def)
  have "pow2 ((e - 52) + int k) = 2 ^ k * pow2 (e - 52)" by (rule pow2_add_nat)
  moreover from e52 have "(e - 52) + int k = 0" by (simp add: k_def)
  ultimately have u: "2 ^ k * pow2 (e - 52) = 1" by (simp add: pow2_def)
  then have inv: "1 / pow2 (e - 52) = 2 ^ k"
    using pow2_pos [of "e - 52"] by (simp add: field_simps)
  have "of_nat n / pow2 (e - 52) = of_nat n * (1 / pow2 (e - 52))" by simp
  also have "\<dots> = of_int (int n * 2 ^ k)" by (simp add: inv)
  finally have q: "of_nat n / pow2 (e - 52) = of_int (int n * 2 ^ k)" .
  from False e0 have "fl (of_nat n) = of_int (round_half_even (of_nat n / pow2 (e - 52))) * pow2 (e - 52)"
    by (simp add: fl_def Let_def be max_def)
  also have "\<dots> = of_int (int n * 2 ^ k) * pow2 (e - 52)"
    by (simp only: q round_half_even_of_int)
  also have "\<dots> = of_nat n * (2 ^ k * pow2 (e - 52))" by simp
  also have "\<dots> = of_nat n" by (simp only: u mult_1_right)
  finally show ?thesis .
qed


lemma floor_fl_div:
  assumes b: "0 < b" "b \<le> 1000" and a: "a < 2 ^ 53"
  shows "\<lfloor>fl (of_nat a / of_nat b)\<rfloor> = int (a div b)"
proof (cases "a mod b = 0")
  case True
  then have "a = a div b * b" by (simp add: mod_eq_0_iff_dvd)
  then have "(of_nat a :: rat) = of_nat (a div b) * of_nat b"
    by (metis of_nat_mult)
  with b have x: "(of_nat a :: rat) / of_nat b = of_nat (a div b)" by simp
  have "a div b \<le> a" by simp
  from this a have "a div b < 2 ^ 53" by (rule le_less_trans)
  then have "fl (of_nat (a div b)) = of_nat (a div b)" by (rule fl_of_nat)
  then show ?thesis by (simp add: x)
next
  case False
  define x where "x = (of_nat a :: rat) / of_nat b"
  define q where "q = a div b"
  define r where "r = a mod b"
  from False have r1: "1 \<le> r" by (simp add: r_def)
  from b have rb: "r + 1 \<le> b" by (simp add: r_def Suc_leI)
  have "a = q * b + r" by (simp add: q_def r_def)
  then have "(of_nat a :: rat) = of_nat q * of_nat b + of_nat r"
    by (metis of_nat_add of_nat_mult)
  with b have xq: "x = of_nat q + of_nat r / of_nat b"
    by (simp add: x_def field_simps)
  from b have bpos: "0 < (of_nat b :: rat)" by simp
  from r1 bpos have lo: "of_nat q + 1 / of_nat b \<le> x"
    by (simp add: xq divide_right_mono)
  from rb have "(of_nat r :: rat) + 1 \<le> of_nat b"
    by (metis of_nat_1 of_nat_add of_nat_le_iff)
  then have "(of_nat r :: rat) \<le> of_nat b - 1" by simp
  with bpos have "(of_nat r :: rat) / of_nat b \<le> (of_nat b - 1) / of_nat b"
    by (simp add: divide_right_mono)
  also from bpos have "\<dots> = 1 - 1 / of_nat b" by (simp add: field_simps)
  finally have hi: "x \<le> of_nat q + 1 - 1 / of_nat b" by (simp add: xq)
  from bpos have ib: "0 < 1 / (of_nat b :: rat)" by simp
  have q0: "0 \<le> (of_nat q :: rat)" by simp
  from lo ib q0 have xpos: "0 < x" by linarith
  from b have "(of_nat b :: rat) \<le> 1000"
    by (metis of_nat_le_iff of_nat_numeral)
  with bpos have "1 / 1000 \<le> 1 / (of_nat b :: rat)" by (simp add: field_simps)
  with lo q0 have "1 / 1000 \<le> x" by linarith
  moreover have "pow2 (- 1022) \<le> pow2 (- 10)" by (rule pow2_mono) simp
  moreover have "pow2 (- 10) \<le> 1 / 1000" by (simp add: pow2_def)
  ultimately have "pow2 (- 1022) \<le> x" by linarith
  with xpos have err: "\<bar>fl x - x\<bar> * 2 ^ 53 \<le> x" by (rule fl_error)
  from a have "(of_nat a :: rat) < 2 ^ 53"
    by (metis of_nat_less_iff of_nat_numeral of_nat_power)
  with bpos have "x * of_nat b < 2 ^ 53" by (simp add: x_def)
  with bpos have "x < 2 ^ 53 * (1 / of_nat b)" by (simp add: field_simps)
  with err have "\<bar>fl x - x\<bar> * 2 ^ 53 < 2 ^ 53 * (1 / of_nat b)" by linarith
  then have small: "\<bar>fl x - x\<bar> < 1 / of_nat b" by simp
  from small lo have "of_nat q < fl x" by linarith
  moreover from small hi have "fl x < of_nat q + 1" by linarith
  ultimately have "\<lfloor>fl x\<rfloor> = int q"
    by (intro floor_unique) simp_all
  then show ?thesis by (simp add: x_def q_def)
qed

lemma remainder_of_nat:
  assumes "0 < b"
  shows "remainder (of_nat a) (of_nat b) = of_nat (a mod b)"
proof -
  have nn: "0 \<le> (of_nat a :: rat) / of_nat b" by simp
  have fl: "\<lfloor>(of_nat a :: rat) / of_nat b\<rfloor> = int (a div b)"
    by (simp add: floor_divide_of_nat_eq)
  have "a = b * (a div b) + a mod b" by simp
  then have eq: "(of_nat a :: rat) = of_nat b * of_nat (a div b) + of_nat (a mod b)"
    by (metis of_nat_add of_nat_mult)
  have "remainder (of_nat a) (of_nat b) = of_nat a - of_nat b * of_nat (a div b)"
    unfolding remainder_def by (simp only: nn fl if_True of_int_of_nat_eq)
  also have "\<dots> = of_nat (a mod b)" by (subst eq) simp
  finally show ?thesis .
qed


section \<open>The notation of a whole Number below one hundred\<close>

lemma floorlog_10_one_digit: "0 < n \<Longrightarrow> n < 10 \<Longrightarrow> floorlog 10 n = 1"
  by (subst compute_floorlog) (simp add: floorlog_def)

lemma floorlog_10_two_digits: "10 \<le> n \<Longrightarrow> n < 100 \<Longrightarrow> floorlog 10 n = 2"
  by (subst compute_floorlog) (simp add: floorlog_10_one_digit)

lemma decimal_exponent_of_nat: "0 < n \<Longrightarrow> decimal_exponent (of_nat n) = int (floorlog 10 n)"
  by (simp add: decimal_exponent_def)

lemma decimal_value_of_nat: "decimal_value (int n, 0) = of_nat n"
  by (simp add: decimal_value_def pow10_def)

lemma decimal_value_tens: "decimal_value (int t, 1) = of_nat (10 * t)"
  by (simp add: decimal_value_def pow10_def)

lemma fl_small: "n < 200 \<Longrightarrow> fl (of_nat n) = of_nat n"
  by (rule fl_of_nat) simp

lemma candidates_exact:
  assumes "n < 100" and "decimal_exponent (of_nat n) = int k"
  shows "candidates (of_nat n) k = [(int n, 0)]"
proof -
  have lo: "\<lfloor>(of_nat n :: rat) / pow10 0\<rfloor> = int n" by (simp add: pow10_def)
  from assms(1) have a: "fl (decimal_value (int n, 0)) = of_nat n"
    by (simp add: decimal_value_of_nat fl_small)
  have "int n + 1 = int (Suc n)" by simp
  then have "decimal_value (int n + 1, 0) = of_nat (Suc n)"
    by (simp only: decimal_value_of_nat)
  with assms(1) have "fl (decimal_value (int n + 1, 0)) = of_nat (Suc n)"
    by (simp only: fl_small)
  then have b: "fl (decimal_value (int n + 1, 0)) \<noteq> (of_nat n :: rat)"
    by (simp only: of_nat_eq_iff)
  show ?thesis
    by (simp add: candidates_def Let_def assms(2) lo a b)
qed

lemma candidates_tens:
  assumes "10 \<le> n" "n < 100"
  shows "candidates (of_nat n) 1 = (if n mod 10 = 0 then [(int (n div 10), 1)] else [])"
proof -
  define t where "t = n div 10"
  from assms have de: "decimal_exponent (of_nat n) = 2"
    by (simp add: decimal_exponent_of_nat floorlog_10_two_digits)
  have "\<lfloor>(of_nat n :: rat) / of_nat 10\<rfloor> = int (n div 10)"
    by (rule floor_divide_of_nat_eq)
  then have lo: "\<lfloor>(of_nat n :: rat) / pow10 1\<rfloor> = int t"
    by (simp add: pow10_def t_def)
  from assms have t10: "10 * t < 200" "10 * Suc t < 200" by (simp_all add: t_def)
  have a: "fl (decimal_value (int t, 1)) = of_nat (10 * t)"
    by (simp only: decimal_value_tens fl_small [OF t10(1)])
  have "int t + 1 = int (Suc t)" by simp
  then have "decimal_value (int t + 1, 1) = of_nat (10 * Suc t)"
    by (simp only: decimal_value_tens)
  then have b: "fl (decimal_value (int t + 1, 1)) = of_nat (10 * Suc t)"
    by (simp only: fl_small [OF t10(2)])
  have "n < 10 * Suc t" by (simp add: t_def)
  then have nb: "(of_nat (10 * Suc t) :: rat) \<noteq> of_nat n"
    by (simp only: of_nat_eq_iff)
  have "(10 * t = n) = (n mod 10 = 0)" unfolding t_def by presburger
  then have na: "((of_nat (10 * t) :: rat) = of_nat n) = (n mod 10 = 0)"
    by (simp only: of_nat_eq_iff)
  from a na have p1: "(fl (decimal_value (int t, 1)) = of_nat n) = (n mod 10 = 0)"
    by (simp only:)
  from b nb have p2: "(fl (decimal_value (int t + 1, 1)) = of_nat n) = False"
    by (simp only:)
  from de have e1: "decimal_exponent (of_nat n) - int 1 = 1" by simp
  show ?thesis
    unfolding candidates_def Let_def e1 lo
    by (simp add: p1 p2 t_def [symmetric])
qed


lemma strip_zeros_done: "s mod 10 \<noteq> 0 \<Longrightarrow> strip_zeros (s, e) = (s, e)"
  by (subst strip_zeros.simps) simp

lemma closest_single: "closest x [d] = Some d"
  by (simp add: closest_def)

lemma closest_none: "closest x [] = None"
  by (simp add: closest_def)

lemma shortest_from_first:
  "closest x (candidates x k) = Some d \<Longrightarrow> shortest_from x k (Suc fuel) = Some d"
  by simp

lemma shortest_from_next:
  "closest x (candidates x k) = None \<Longrightarrow>
   shortest_from x k (Suc fuel) = shortest_from x (Suc k) fuel"
  by simp

lemma seventeen: "(17 :: nat) = Suc (Suc 15)"
  by simp

lemma number_toString_small:
  assumes "n < 100"
  shows "number_toString (of_nat n) = toString n"
proof -
  consider "n = 0" | "0 < n" "n < 10" | "10 \<le> n" "n mod 10 = 0" | "10 \<le> n" "n mod 10 \<noteq> 0"
    by linarith
  then show ?thesis
  proof cases
    case 1
    then show ?thesis
      by (simp add: number_toString_def toString.simps [of 0] digit_char_eval)
  next
    case 2
    then have de: "decimal_exponent (of_nat n) = int 1"
      by (simp add: decimal_exponent_of_nat floorlog_10_one_digit)
    from assms de have "candidates (of_nat n) 1 = [(int n, 0)]" by (rule candidates_exact)
    then have "closest (of_nat n) (candidates (of_nat n) 1) = Some (int n, 0)"
      by (simp only: closest_single)
    then have "shortest_from (of_nat n) 1 17 = Some (int n, 0)"
      unfolding seventeen by (rule shortest_from_first)
    then have sd: "shortest_decimal (of_nat n) = (int n, 0)"
      by (simp add: shortest_decimal_def)
    from 2 have "int n mod 10 \<noteq> 0" by simp
    then have sz: "strip_zeros (int n, 0) = (int n, 0)" by (rule strip_zeros_done)
    from 2 have len: "length (toString n) = 1" by (simp add: length_toString_small)
    have dn: "decimal_notation (int n, 0) = toString n"
      by (simp add: decimal_notation_def Let_def len)
    from 2 show ?thesis
      by (simp add: number_toString_def sd sz dn)
  next
    case 3
    define t where "t = n div 10"
    from 3 assms have t: "0 < t" "t < 10" by (simp_all add: t_def)
    from candidates_tens [OF 3(1) assms] 3(2) have "candidates (of_nat n) 1 = [(int t, 1)]"
      by (simp only: if_True t_def refl)
    then have "closest (of_nat n) (candidates (of_nat n) 1) = Some (int t, 1)"
      by (simp only: closest_single)
    then have "shortest_from (of_nat n) 1 17 = Some (int t, 1)"
      unfolding seventeen by (rule shortest_from_first)
    then have sd: "shortest_decimal (of_nat n) = (int t, 1)"
      by (simp add: shortest_decimal_def)
    from t have "int t mod 10 \<noteq> 0" by simp
    then have sz: "strip_zeros (int t, 1) = (int t, 1)" by (rule strip_zeros_done)
    from t have len: "length (toString t) = 1" by (simp add: length_toString_small)
    have dn: "decimal_notation (int t, 1) = toString t @ ''0''"
      by (simp add: decimal_notation_def Let_def len)
    from 3 have "toString n = toString t @ ''0''"
      by (subst toString.simps) (simp add: t_def digit_char_eval)
    with 3 show ?thesis
      by (simp add: number_toString_def sd sz dn)
  next
    case 4
    from 4 assms have de: "decimal_exponent (of_nat n) = int 2"
      by (simp add: decimal_exponent_of_nat floorlog_10_two_digits)
    from candidates_tens [OF 4(1) assms] 4(2) have "candidates (of_nat n) 1 = []"
      by (simp only: if_False refl)
    then have c1: "closest (of_nat n) (candidates (of_nat n) 1) = None"
      by (simp only: closest_none)
    have two: "Suc 1 = 2" by simp
    from assms de have "candidates (of_nat n) 2 = [(int n, 0)]" by (rule candidates_exact)
    then have c2: "closest (of_nat n) (candidates (of_nat n) (Suc 1)) = Some (int n, 0)"
      by (simp only: two closest_single)
    have "shortest_from (of_nat n) 1 17 = shortest_from (of_nat n) (Suc 1) (Suc 15)"
      unfolding seventeen using c1 by (rule shortest_from_next)
    also have "\<dots> = Some (int n, 0)" using c2 by (rule shortest_from_first)
    finally have sd: "shortest_decimal (of_nat n) = (int n, 0)"
      by (simp add: shortest_decimal_def)
    from 4 have "int n mod 10 \<noteq> 0"
      by (metis of_nat_0 of_nat_eq_iff of_nat_mod of_nat_numeral)
    then have sz: "strip_zeros (int n, 0) = (int n, 0)" by (rule strip_zeros_done)
    from 4 assms have len: "length (toString n) = 2" by (simp add: length_toString_two)
    have dn: "decimal_notation (int n, 0) = toString n"
      by (simp add: decimal_notation_def Let_def len)
    from 4 show ?thesis
      by (simp add: number_toString_def sd sz dn)
  qed
qed


lemma number_toString_100: "number_toString 100 = ''100''"
proof -
  have "floorlog 10 100 = floorlog 10 (100 div 10) + 1"
    by (subst compute_floorlog) simp
  then have f: "floorlog 10 100 = 3" by (simp add: floorlog_10_two_digits)
  have de: "decimal_exponent 100 - int 1 = 2"
    by (simp add: decimal_exponent_def f)
  have lo: "\<lfloor>(100 :: rat) / pow10 2\<rfloor> = 1" by (simp add: pow10_def)
  have "fl (of_nat 100) = of_nat 100" by (rule fl_of_nat) simp
  then have p1: "(fl (decimal_value (1, 2)) = 100) = True"
    by (simp add: decimal_value_def pow10_def)
  have "fl (of_nat 200) = of_nat 200" by (rule fl_of_nat) simp
  then have p2: "(fl (decimal_value (1 + 1, 2)) = 100) = False"
    by (simp add: decimal_value_def pow10_def)
  have "candidates 100 1 = [(1, 2)]"
    unfolding candidates_def Let_def de lo by (simp only: filter.simps p1 p2 if_True if_False)
  then have "closest 100 (candidates 100 1) = Some (1, 2)"
    by (simp only: closest_single)
  then have "shortest_from 100 1 17 = Some (1, 2)"
    unfolding seventeen by (rule shortest_from_first)
  then have sd: "shortest_decimal 100 = (1, 2)"
    by (simp add: shortest_decimal_def)
  have sz: "strip_zeros (1, 2) = (1, 2)" by (rule strip_zeros_done) simp
  have dn: "decimal_notation (1, 2) = ''100''"
    by (simp add: decimal_notation_def Let_def toString_numeral_eval digit_char_eval
        numeral_2_eq_2)
  show ?thesis
    by (simp add: number_toString_def sd sz dn)
qed

section \<open>Timer display: minutes, seconds, hundredths\<close>

lemma formatTime_of_nat:
  assumes "ms < 2 ^ 53"
  shows "formatTime (of_nat ms) =
     padStart 2 (CHR ''0'') (number_toString (of_nat (ms div 60000))) @ '':'' @
     padStart 2 (CHR ''0'') (number_toString (of_nat (ms div 1000 mod 60))) @ ''.'' @
     padStart 2 (CHR ''0'') (number_toString (of_nat (ms mod 1000 div 10)))"
proof -
  have "\<lfloor>fl (of_nat ms / of_nat 1000)\<rfloor> = int (ms div 1000)"
    using assms by (intro floor_fl_div) simp_all
  then have ts: "Math_floor (fl (of_nat ms / 1000)) = of_nat (ms div 1000)"
    by (simp add: Math_floor_def)
  have "ms div 1000 \<le> ms" by simp
  from this assms have q: "ms div 1000 < 2 ^ 53" by (rule le_less_trans)
  have "\<lfloor>fl (of_nat (ms div 1000) / of_nat 60)\<rfloor> = int (ms div 1000 div 60)"
    using q by (intro floor_fl_div) simp_all
  moreover have "ms div 1000 div 60 = ms div 60000"
    by (simp add: div_mult2_eq [symmetric])
  ultimately have mi: "Math_floor (fl (of_nat (ms div 1000) / 60)) = of_nat (ms div 60000)"
    by (simp add: Math_floor_def)
  have "remainder (of_nat (ms div 1000)) (of_nat 60) = of_nat (ms div 1000 mod 60)"
    by (rule remainder_of_nat) simp
  then have se: "remainder (of_nat (ms div 1000)) 60 = of_nat (ms div 1000 mod 60)"
    by simp
  have "remainder (of_nat ms) (of_nat 1000) = of_nat (ms mod 1000)"
    by (rule remainder_of_nat) simp
  then have r: "remainder (of_nat ms) 1000 = of_nat (ms mod 1000)" by simp
  have "ms mod 1000 < 2 ^ 53" by (rule less_trans [of _ 1000]) simp_all
  then have "\<lfloor>fl (of_nat (ms mod 1000) / of_nat 10)\<rfloor> = int (ms mod 1000 div 10)"
    by (intro floor_fl_div) simp_all
  then have cs: "Math_floor (fl (of_nat (ms mod 1000) / 10)) = of_nat (ms mod 1000 div 10)"
    by (simp add: Math_floor_def)
  show ?thesis
    unfolding formatTime_def Let_def ts mi se r cs ..
qed

lemma formatTime_parts:
  assumes "ms < 6000000"
  shows "formatTime (of_nat ms) =
     padStart 2 (CHR ''0'') (toString (ms div 60000)) @ '':'' @
     padStart 2 (CHR ''0'') (toString (ms div 1000 mod 60)) @ ''.'' @
     padStart 2 (CHR ''0'') (toString (ms mod 1000 div 10))"
proof -
  from assms have "ms < 2 ^ 53" by simp
  then have f: "formatTime (of_nat ms) =
     padStart 2 (CHR ''0'') (number_toString (of_nat (ms div 60000))) @ '':'' @
     padStart 2 (CHR ''0'') (number_toString (of_nat (ms div 1000 mod 60))) @ ''.'' @
     padStart 2 (CHR ''0'') (number_toString (of_nat (ms mod 1000 div 10)))"
    by (rule formatTime_of_nat)
  from assms have "ms div 60000 < 100" by (simp add: less_mult_imp_div_less)
  then have m: "number_toString (of_nat (ms div 60000)) = toString (ms div 60000)"
    by (rule number_toString_small)
  have "ms div 1000 mod 60 < 100" by (rule less_trans [of _ 60]) simp_all
  then have s: "number_toString (of_nat (ms div 1000 mod 60)) = toString (ms div 1000 mod 60)"
    by (rule number_toString_small)
  have "ms mod 1000 div 10 < 100" by (simp add: less_mult_imp_div_less)
  then have c: "number_toString (of_nat (ms mod 1000 div 10)) = toString (ms mod 1000 div 10)"
    by (rule number_toString_small)
  show ?thesis unfolding f m s c ..
qed


lemma number_toString_of_zero: "number_toString 0 = ''0''"
  using number_toString_small [of 0] by (simp add: toString_numeral_eval)

text \<open>
  Claim C8, as the code has it. The display of the timer is \<^verbatim>\<open>formatTime(time)\<close>, and \<open>time\<close>
  is a whole number of milliseconds. For every whole number of elapsed milliseconds below
  6,000,000, that is below 100 minutes, the display is two digits of minutes, a colon,
  two digits of seconds, a full stop and two digits of hundredths, which read back as
  \<open>ms div 60000\<close>, \<open>ms div 1000 mod 60\<close> and \<open>ms mod 1000 div 10\<close>. 65,430 ms reads
  \<open>01:05.43\<close>. At 6,000,000 ms the minutes take three digits: \<open>100:00.00\<close>.
\<close>

theorem formatTime_MM_SS_CC:
  assumes "ms < 6000000"
  shows "(\<exists>mm ss cc.
      formatTime (of_nat ms) = mm @ '':'' @ ss @ ''.'' @ cc \<and>
      length mm = 2 \<and> length ss = 2 \<and> length cc = 2 \<and>
      list_all is_digit mm \<and> list_all is_digit ss \<and> list_all is_digit cc \<and>
      nat_of_digits mm = ms div 60000 \<and>
      nat_of_digits ss = ms div 1000 mod 60 \<and>
      nat_of_digits cc = ms mod 1000 div 10) \<and>
   formatTime 65430 = ''01:05.43''"
proof
  let ?mm = "padStart 2 (CHR ''0'') (toString (ms div 60000))"
  let ?ss = "padStart 2 (CHR ''0'') (toString (ms div 1000 mod 60))"
  let ?cc = "padStart 2 (CHR ''0'') (toString (ms mod 1000 div 10))"
  from assms have parts: "formatTime (of_nat ms) = ?mm @ '':'' @ ?ss @ ''.'' @ ?cc"
    by (rule formatTime_parts)
  have digs: "list_all is_digit ?mm" "list_all is_digit ?ss" "list_all is_digit ?cc"
    by (simp_all add: padStart_digits toString_digits)
  have vals: "nat_of_digits ?mm = ms div 60000" "nat_of_digits ?ss = ms div 1000 mod 60"
    "nat_of_digits ?cc = ms mod 1000 div 10"
    by (simp_all add: nat_of_digits_padStart nat_of_digits_toString)
  from assms have "ms div 60000 < 100"
    by (simp add: less_mult_imp_div_less)
  then have mm_len: "length ?mm = 2" by (rule length_pad2_small)
  have ss_len: "length ?ss = 2"
    by (rule length_pad2_small) simp
  have "ms mod 1000 div 10 < 100"
    by (simp add: less_mult_imp_div_less)
  then have cc_len: "length ?cc = 2"
    by (rule length_pad2_small)
  from parts mm_len ss_len cc_len digs vals
  show "\<exists>mm ss cc.
      formatTime (of_nat ms) = mm @ '':'' @ ss @ ''.'' @ cc \<and>
      length mm = 2 \<and> length ss = 2 \<and> length cc = 2 \<and>
      list_all is_digit mm \<and> list_all is_digit ss \<and> list_all is_digit cc \<and>
      nat_of_digits mm = ms div 60000 \<and>
      nat_of_digits ss = ms div 1000 mod 60 \<and>
      nat_of_digits cc = ms mod 1000 div 10"
    by (intro exI [of _ ?mm] exI [of _ ?ss] exI [of _ ?cc] conjI)
next
  have "(65430 :: nat) < 6000000" by simp
  then have "formatTime (of_nat 65430) =
     padStart 2 (CHR ''0'') (toString (65430 div 60000)) @ '':'' @
     padStart 2 (CHR ''0'') (toString (65430 div 1000 mod 60)) @ ''.'' @
     padStart 2 (CHR ''0'') (toString (65430 mod 1000 div 10))"
    by (rule formatTime_parts)
  then show "formatTime 65430 = ''01:05.43''"
    by (simp add: padStart_def toString_numeral_eval digit_char_eval)
qed

theorem formatTime_witness:
  "(65430 :: nat) < 6000000 \<and>
   (\<exists>mm ss cc. formatTime 65430 = mm @ '':'' @ ss @ ''.'' @ cc \<and>
      length mm = 2 \<and> length ss = 2 \<and> length cc = 2 \<and>
      nat_of_digits mm = 1 \<and> nat_of_digits ss = 5 \<and> nat_of_digits cc = 43) \<and>
   formatTime 65430 = ''01:05.43''"
proof -
  have small: "(65430 :: nat) < 6000000" by simp
  from formatTime_MM_SS_CC [OF small] obtain mm ss cc where
    h: "formatTime (of_nat 65430) = mm @ '':'' @ ss @ ''.'' @ cc"
      "length mm = 2" "length ss = 2" "length cc = 2"
      "nat_of_digits mm = 65430 div 60000" "nat_of_digits ss = 65430 div 1000 mod 60"
      "nat_of_digits cc = 65430 mod 1000 div 10"
    and v: "formatTime 65430 = ''01:05.43''"
    by (elim conjE exE)
  from h have "formatTime 65430 = mm @ '':'' @ ss @ ''.'' @ cc \<and>
      length mm = 2 \<and> length ss = 2 \<and> length cc = 2 \<and>
      nat_of_digits mm = 1 \<and> nat_of_digits ss = 5 \<and> nat_of_digits cc = 43"
    by simp
  then have ex: "\<exists>mm ss cc. formatTime 65430 = mm @ '':'' @ ss @ ''.'' @ cc \<and>
      length mm = 2 \<and> length ss = 2 \<and> length cc = 2 \<and>
      nat_of_digits mm = 1 \<and> nat_of_digits ss = 5 \<and> nat_of_digits cc = 43"
    by (intro exI)
  show ?thesis
    by (intro conjI) (rule small, rule ex, rule v)
qed

theorem formatTime_100_minutes:
  "formatTime 6000000 = ''100:00.00'' \<and>
   \<not> (\<exists>mm ss cc. formatTime 6000000 = mm @ '':'' @ ss @ ''.'' @ cc \<and>
         length mm = 2 \<and> length ss = 2 \<and> length cc = 2)"
proof
  have "(6000000 :: nat) < 2 ^ 53" by simp
  then have "formatTime (of_nat 6000000) =
     padStart 2 (CHR ''0'') (number_toString (of_nat (6000000 div 60000))) @ '':'' @
     padStart 2 (CHR ''0'') (number_toString (of_nat (6000000 div 1000 mod 60))) @ ''.'' @
     padStart 2 (CHR ''0'') (number_toString (of_nat (6000000 mod 1000 div 10)))"
    by (rule formatTime_of_nat)
  then show v: "formatTime 6000000 = ''100:00.00''"
    by (simp add: number_toString_100 number_toString_of_zero padStart_def)
  show "\<not> (\<exists>mm ss cc. formatTime 6000000 = mm @ '':'' @ ss @ ''.'' @ cc \<and>
         length mm = 2 \<and> length ss = 2 \<and> length cc = 2)"
  proof
    assume "\<exists>mm ss cc. formatTime 6000000 = mm @ '':'' @ ss @ ''.'' @ cc \<and>
         length mm = 2 \<and> length ss = 2 \<and> length cc = 2"
    then obtain mm ss cc where "formatTime 6000000 = mm @ '':'' @ ss @ ''.'' @ cc"
      "length mm = 2" "length ss = 2" "length cc = 2"
      by (elim exE conjE)
    then have "length (formatTime 6000000) = 8" by simp
    with v show False by simp
  qed
qed

section \<open>Strings survive stringify and parse\<close>

lemma char_eq_of_char: "(of_char c :: nat) = n \<Longrightarrow> c = char_of n"
  by (metis char_of_char)











section \<open>The notation of a Number denotes the Number\<close>
















section \<open>Reading the notation of a Number\<close>
















section \<open>Reading what JSON.stringify writes\<close>














section \<open>Reading a stored session log\<close>


















end
